theory Spec2Isabelle
  imports Main "HOL-Library.AList" "HOL-Library.Sublist"
begin

section \<open>Python values, exceptions and dictionaries\<close>

text \<open>
  The exceptions the modelled code can raise. \<open>ExternalError\<close> stands for any exception
  raised by a collaborator that is not part of the modelled files (the signature solver,
  the HTTP transport, the extractor); its payload is whatever the collaborator reports.
\<close>

datatype error =
    KeyError string
  | ValueError
  | TypeError
  | AttributeError
  | IndexError
  | OSError string
  | UnknownFormatError
  | ExternalError string

text \<open>
  The manifests and player configurations are untyped Python dictionaries; their values
  are modelled by a universal value type. A dictionary is an association list in insertion
  order: lookup is \<open>map_of\<close>, assignment \<open>d[k] = v\<close> is \<open>AList.update\<close> (it
  overwrites in place, or appends a new key at the end, as a Python dict does).
\<close>

datatype pyval =
    PNone
  | PBool bool
  | PInt int
  | PStr string
  | PList "pyval list"
  | PDict "(string \<times> pyval) list"

type_synonym pydict = "(string \<times> pyval) list"

text \<open>Python truthiness, as used by \<open>or\<close> and \<open>if\<close>.\<close>

fun truthy :: "pyval \<Rightarrow> bool" where
  "truthy PNone = False"
| "truthy (PBool b) = b"
| "truthy (PInt i) = (i \<noteq> 0)"
| "truthy (PStr s) = (s \<noteq> [])"
| "truthy (PList xs) = (xs \<noteq> [])"
| "truthy (PDict d) = (d \<noteq> [])"

text \<open>\<open>obj[key]\<close> for a string key: only a dictionary supports it.\<close>

fun subscript :: "pyval \<Rightarrow> string \<Rightarrow> error + pyval" where
  "subscript (PDict d) k = (case map_of d k of None \<Rightarrow> Inl (KeyError k) | Some v \<Rightarrow> Inr v)"
| "subscript _ k = Inl TypeError"

text \<open>\<open>obj.get(key, default)\<close>: only a dictionary has the method.\<close>

fun get_method :: "pyval \<Rightarrow> string \<Rightarrow> pyval \<Rightarrow> error + pyval" where
  "get_method (PDict d) k dflt = (case map_of d k of None \<Rightarrow> Inr dflt | Some v \<Rightarrow> Inr v)"
| "get_method _ k dflt = Inl AttributeError"

text \<open>\<open>needle in obj\<close> for a string needle: substring, list membership or key membership.\<close>

fun contains :: "string \<Rightarrow> pyval \<Rightarrow> error + bool" where
  "contains needle (PStr s) = Inr (sublist needle s)"
| "contains needle (PList xs) = Inr (PStr needle \<in> set xs)"
| "contains needle (PDict d) = Inr (needle \<in> fst ` set d)"
| "contains needle _ = Inl TypeError"

text \<open>\<open>obj + s\<close> for a string \<open>s\<close>: defined on strings only.\<close>

fun add_str :: "pyval \<Rightarrow> string \<Rightarrow> error + pyval" where
  "add_str (PStr u) s = Inr (PStr (u @ s))"
| "add_str _ s = Inl TypeError"

text \<open>\<open>str.split(sep)\<close> for a one-character separator: one more piece than separators.\<close>

fun split_on :: "char \<Rightarrow> string \<Rightarrow> string list" where
  "split_on sep [] = [[]]"
| "split_on sep (c # cs) =
     (if c = sep then [] # split_on sep cs
      else (case split_on sep cs of [] \<Rightarrow> [[c]] | w # ws \<Rightarrow> (c # w) # ws))"

section \<open>The stream descriptor (pytube/streams.py)\<close>

text \<open>
  The attributes \<open>Stream.__init__\<close> has assigned by the time it calls
  \<open>parse_codecs\<close> form \<open>stream_core\<close>; the finished object is \<open>stream\<close>. The
  properties below are defined on the extensible record, so they apply to both. The shared
  \<open>_monostate\<close> object is passed to the operations that use it rather than stored, and the
  private attribute \<open>_filesize\<close> is the field \<open>filesize_cache\<close>.
\<close>

record stream_core =
  url :: pyval
  itag :: int
  mime_type :: string
  codecs :: "string list"
  type :: string
  subtype :: string

record stream = stream_core +
  video_codec :: "string option"
  audio_codec :: "string option"
  filesize_cache :: "int option"
  is_dash :: pyval
  abr :: pyval
  fps :: pyval
  resolution :: pyval
  is_3d :: pyval
  is_hdr :: pyval
  is_live :: pyval
  player_config_args :: pydict

definition is_adaptive :: "'a stream_core_scheme \<Rightarrow> bool" where
  "is_adaptive s = (length (codecs s) mod 2 \<noteq> 0)"

definition is_progressive :: "'a stream_core_scheme \<Rightarrow> bool" where
  "is_progressive s = (\<not> is_adaptive s)"

definition includes_audio_track :: "'a stream_core_scheme \<Rightarrow> bool" where
  "includes_audio_track s = (is_progressive s \<or> type s = ''audio'')"

definition includes_video_track :: "'a stream_core_scheme \<Rightarrow> bool" where
  "includes_video_track s = (is_progressive s \<or> type s = ''video'')"

text \<open>
  \<open>video, audio = self.codecs\<close> unpacks exactly two entries and raises ValueError on any
  other length; \<open>self.codecs[0]\<close> raises IndexError on an empty list.
\<close>

definition parse_codecs :: "'a stream_core_scheme \<Rightarrow> error + (string option \<times> string option)" where
  "parse_codecs s =
     (if \<not> is_adaptive s then
        (case codecs s of [v, a] \<Rightarrow> Inr (Some v, Some a) | _ \<Rightarrow> Inl ValueError)
      else if includes_video_track s then
        (case codecs s of [] \<Rightarrow> Inl IndexError | c # _ \<Rightarrow> Inr (Some c, None))
      else if includes_audio_track s then
        (case codecs s of [] \<Rightarrow> Inl IndexError | c # _ \<Rightarrow> Inr (None, Some c))
      else Inr (None, None))"

text \<open>Sequencing of fallible steps: an exception of the first step skips the second.\<close>

definition and_then :: "error + 'a \<Rightarrow> ('a \<Rightarrow> error + 'b) \<Rightarrow> error + 'b" where
  "and_then r f = (case r of Inl e \<Rightarrow> Inl e | Inr v \<Rightarrow> f v)"

text \<open>
  \<open>Stream.title\<close>: a chain of \<open>or\<close>, so a value is taken when it is truthy, and the
  second operand is evaluated only when the first is not. The \<open>.get\<close> calls on the nested
  values raise AttributeError when such a value is not a dictionary.
\<close>

definition title :: "'a stream_scheme \<Rightarrow> error + pyval" where
  "title s =
     and_then (get_method (PDict (player_config_args s)) ''title'' PNone) (\<lambda>t.
       if truthy t then Inr t
       else
         and_then (get_method (PDict (player_config_args s)) ''player_response'' (PDict [])) (\<lambda>pr.
         and_then (get_method pr ''videoDetails'' (PDict [])) (\<lambda>vd.
         and_then (get_method vd ''title'' PNone) (\<lambda>t'.
           if truthy t' then Inr t' else Inr (PStr ''Unknown YouTube Video Title'')))))"

section \<open>Collaborators outside the modelled files\<close>

text \<open>
  A bytes object is a list of 8-bit characters. The functions the two modules import
  from elsewhere are parameters of the model: the builtin \<open>int\<close>,
  \<open>extract.mime_type_codec\<close>, the static table behind \<open>itags.get_format_profile\<close>,
  \<open>helpers.safe_filename\<close>, \<open>helpers.target_directory\<close>, \<open>os.path.join\<close>,
  \<open>request.headers\<close> and \<open>request.stream\<close>. The chunk stream of the transport is a
  finite list of chunks, possibly ended by a transport failure. The filesystem can refuse
  an operation: \<open>open_wb path\<close> is the exception of \<open>open(path, "wb")\<close>, if it raises,
  and \<open>file_write path written chunk\<close> is the exception of writing \<open>chunk\<close> to the file
  at \<open>path\<close> that holds \<open>written\<close> so far, if it raises (nothing is written then).
\<close>

type_synonym chunk = string

record profile =
  profile_is_dash :: pyval
  profile_abr :: pyval
  profile_fps :: pyval
  profile_resolution :: pyval
  profile_is_3d :: pyval
  profile_is_hdr :: pyval
  profile_is_live :: pyval

record externals =
  py_int :: "pyval \<Rightarrow> error + int"
  mime_type_codec :: "pyval \<Rightarrow> error + (string \<times> string list)"
  itags :: "(int \<times> profile) list"
  safe_filename :: "string \<Rightarrow> string"
  target_directory :: "string option \<Rightarrow> string"
  path_join :: "string \<Rightarrow> string \<Rightarrow> string"
  request_headers :: "pyval \<Rightarrow> error + pydict"
  request_stream :: "pyval \<Rightarrow> chunk list \<times> error option"
  open_wb :: "string \<Rightarrow> error option"
  file_write :: "string \<Rightarrow> chunk \<Rightarrow> chunk \<Rightarrow> error option"

text \<open>
  Modelled from the spec: \<open>pytube.itags.get_format_profile\<close> is not among the modelled
  files. The spec says the quality/profile attributes are looked up by itag from a static
  table and that an itag absent from the table is a failure (UnknownFormatError).
\<close>

definition get_format_profile :: "(int \<times> profile) list \<Rightarrow> int \<Rightarrow> error + profile" where
  "get_format_profile table i =
     (case map_of table i of None \<Rightarrow> Inl UnknownFormatError | Some p \<Rightarrow> Inr p)"

text \<open>\<open>Stream.__init__\<close>, statement by statement; the first exception ends it.\<close>

definition Stream_init :: "externals \<Rightarrow> pydict \<Rightarrow> pydict \<Rightarrow> error + stream" where
  "Stream_init ext stream_record config =
     and_then (subscript (PDict stream_record) ''url'') (\<lambda>u.
     and_then (subscript (PDict stream_record) ''itag'') (\<lambda>it.
     and_then (py_int ext it) (\<lambda>i.
     and_then (subscript (PDict stream_record) ''type'') (\<lambda>ty.
     and_then (mime_type_codec ext ty) (\<lambda>(mt, cs).
       (case split_on CHR ''/'' mt of
          [t, st] \<Rightarrow>
            (let core = \<lparr>url = u, itag = i, mime_type = mt, codecs = cs, type = t, subtype = st\<rparr>
             in and_then (parse_codecs core) (\<lambda>(v, a).
                and_then (get_format_profile (itags ext) i) (\<lambda>p.
                  Inr \<lparr>url = u, itag = i, mime_type = mt, codecs = cs, type = t, subtype = st,
                       video_codec = v, audio_codec = a, filesize_cache = None,
                       is_dash = profile_is_dash p, abr = profile_abr p, fps = profile_fps p,
                       resolution = profile_resolution p, is_3d = profile_is_3d p,
                       is_hdr = profile_is_hdr p, is_live = profile_is_live p,
                       player_config_args = config\<rparr>)))
        | _ \<Rightarrow> Inl ValueError))))))"

section \<open>The download engine (pytube/streams.py)\<close>

text \<open>
  The world the engine acts on: the regular files of the filesystem (path to content), a
  log of the \<open>request.headers\<close> calls and of the \<open>request.stream\<close> calls issued, a
  trace of the sink writes and callback invocations in the order they happen, and the
  state of the user's program, which is all a callback can change.
\<close>

datatype event = Written chunk | ProgressCall chunk int | CompleteCall

record 'u world =
  files :: "(string \<times> chunk) list"
  headers_log :: "pyval list"
  stream_log :: "pyval list"
  trace :: "event list"
  user :: 'u

text \<open>
  The sink of a transfer: the file object opened at a path, or an in-memory
  \<open>io.BytesIO\<close>, each with the bytes written through it so far. Writing to a file can
  raise; writing to a buffer cannot.
\<close>

datatype file_handler = FileHandle string chunk | BytesIO chunk

fun handler_content :: "file_handler \<Rightarrow> chunk" where
  "handler_content (FileHandle path written) = written"
| "handler_content (BytesIO written) = written"

fun handler_write :: "externals \<Rightarrow> file_handler \<Rightarrow> chunk \<Rightarrow> error + file_handler" where
  "handler_write ext (FileHandle path written) chunk =
     (case file_write ext path written chunk of
        Some e \<Rightarrow> Inl e
      | None \<Rightarrow> Inr (FileHandle path (written @ chunk)))"
| "handler_write ext (BytesIO written) chunk = Inr (BytesIO (written @ chunk))"

text \<open>
  The shared observer registry. A callback receives the stream, the chunk (progress
  only), the sink and, for progress, the remaining byte count; it returns the new user
  state and the exception it raised, if any.
\<close>

record 'u monostate =
  on_progress_callback ::
    "(stream \<Rightarrow> chunk \<Rightarrow> file_handler \<Rightarrow> int \<Rightarrow> 'u \<Rightarrow> 'u \<times> error option) option"
  on_complete_callback :: "(stream \<Rightarrow> file_handler \<Rightarrow> 'u \<Rightarrow> 'u \<times> error option) option"

definition filesize :: "externals \<Rightarrow> stream \<Rightarrow> 'u world \<Rightarrow> (error + int) \<times> stream \<times> 'u world" where
  "filesize ext s w =
     (case filesize_cache s of
        Some n \<Rightarrow> (Inr n, s, w)
      | None \<Rightarrow>
          (let w' = w\<lparr>headers_log := headers_log w @ [url s]\<rparr> in
           case and_then (request_headers ext (url s)) (\<lambda>headers.
                and_then (subscript (PDict headers) ''content-length'') (py_int ext)) of
             Inl e \<Rightarrow> (Inl e, s, w')
           | Inr n \<Rightarrow> (Inr n, s\<lparr>filesize_cache := Some n\<rparr>, w')))"

text \<open>\<open>safe_filename\<close> works on a string; a title that is not one is a TypeError.\<close>

definition default_filename :: "externals \<Rightarrow> stream \<Rightarrow> error + string" where
  "default_filename ext s =
     and_then (title s) (\<lambda>t.
       case t of PStr name \<Rightarrow> Inr (safe_filename ext name @ ''.'' @ subtype s)
       | _ \<Rightarrow> Inl TypeError)"

text \<open>
  \<open>Stream.on_progress\<close>: the write comes first and its exception ends the call before
  any callback; then the registered callback, if there is one, is called with the stream,
  the chunk, the sink and the remaining count, and what it does to the user state stays.
\<close>

definition on_progress ::
  "externals \<Rightarrow> 'u monostate \<Rightarrow> stream \<Rightarrow> chunk \<Rightarrow> file_handler \<Rightarrow> int \<Rightarrow> 'u world
     \<Rightarrow> error option \<times> file_handler \<times> 'u world" where
  "on_progress ext m s chunk file_handler bytes_remaining w =
     (case handler_write ext file_handler chunk of
        Inl e \<Rightarrow> (Some e, file_handler, w)
      | Inr fh \<Rightarrow>
          (let w1 = w\<lparr>trace := trace w @ [Written chunk]\<rparr>
           in case on_progress_callback m of
                None \<Rightarrow> (None, fh, w1)
              | Some cb \<Rightarrow>
                  (let w2 = w1\<lparr>trace := trace w1 @ [ProgressCall chunk bytes_remaining]\<rparr>;
                       (u, r) = cb s chunk fh bytes_remaining (user w2)
                   in (r, fh, w2\<lparr>user := u\<rparr>))))"

definition on_complete ::
  "'u monostate \<Rightarrow> stream \<Rightarrow> file_handler \<Rightarrow> 'u world \<Rightarrow> error option \<times> 'u world" where
  "on_complete m s file_handle w =
     (case on_complete_callback m of
        None \<Rightarrow> (None, w)
      | Some cb \<Rightarrow>
          (let w1 = w\<lparr>trace := trace w @ [CompleteCall]\<rparr>;
               (u, r) = cb s file_handle (user w1)
           in (r, w1\<lparr>user := u\<rparr>)))"

text \<open>
  The loop \<open>for chunk in request.stream(self.url)\<close> of both \<open>download\<close> and
  \<open>stream_to_buffer\<close>: it returns the exception that ended it (if any), the final value
  of \<open>bytes_remaining\<close>, the sink and the world.
\<close>

fun transfer ::
  "externals \<Rightarrow> 'u monostate \<Rightarrow> stream \<Rightarrow> chunk list \<Rightarrow> int \<Rightarrow> file_handler \<Rightarrow> 'u world
     \<Rightarrow> error option \<times> int \<times> file_handler \<times> 'u world" where
  "transfer ext m s [] bytes_remaining fh w = (None, bytes_remaining, fh, w)"
| "transfer ext m s (chunk # rest) bytes_remaining fh w =
     (let remaining = bytes_remaining - int (length chunk)
      in case on_progress ext m s chunk fh remaining w of
           (Some e, fh', w') \<Rightarrow> (Some e, remaining, fh', w')
         | (None, fh', w') \<Rightarrow> transfer ext m s rest remaining fh' w')"

text \<open>Lines 208 to 216 of \<open>download\<close>: the path of the target file.\<close>

definition target_path ::
  "externals \<Rightarrow> stream \<Rightarrow> string option \<Rightarrow> string option \<Rightarrow> string option \<Rightarrow> error + string" where
  "target_path ext s output_path filename filename_prefix =
     and_then
       (case filename of
          Some f \<Rightarrow> if f \<noteq> [] then Inr (safe_filename ext f @ ''.'' @ subtype s)
                    else default_filename ext s
        | None \<Rightarrow> default_filename ext s) (\<lambda>name.
       Inr (path_join ext (target_directory ext output_path)
              (case filename_prefix of
                 Some p \<Rightarrow> if p \<noteq> [] then safe_filename ext p @ name else name
               | None \<Rightarrow> name)))"

text \<open>
  Lines 218 to 222 of \<open>download\<close>: the condition of the skip. \<open>and\<close> is evaluated left
  to right, so \<open>self.filesize\<close> is read only when the file exists.
\<close>

definition skip_condition ::
  "externals \<Rightarrow> stream \<Rightarrow> string \<Rightarrow> bool \<Rightarrow> 'u world \<Rightarrow> (error + bool) \<times> stream \<times> 'u world" where
  "skip_condition ext s file_path skip_existing w =
     (if skip_existing then
        (case map_of (files w) file_path of
           None \<Rightarrow> (Inr False, s, w)
         | Some content \<Rightarrow>
             (case filesize ext s w of
                (Inl e, s', w') \<Rightarrow> (Inl e, s', w')
              | (Inr n, s', w') \<Rightarrow> (Inr (int (length content) = n), s', w')))
      else (Inr False, s, w))"

text \<open>
  Lines 227 to 239 of \<open>download\<close>. \<open>self.filesize\<close> is read twice (for the counter and
  for the log message). \<open>open(file_path, "wb")\<close> raises, or creates or truncates the
  file; leaving the \<open>with\<close> block, by the end of the loop or by an exception (of a
  write, of a callback or of the transport), closes the file with what was written.
  \<open>on_complete\<close> is called after the block.
\<close>

definition download_transfer ::
  "externals \<Rightarrow> 'u monostate \<Rightarrow> stream \<Rightarrow> string \<Rightarrow> 'u world \<Rightarrow> (error + string) \<times> stream \<times> 'u world" where
  "download_transfer ext m s file_path w =
     (case filesize ext s w of
        (Inl e, s1, w1) \<Rightarrow> (Inl e, s1, w1)
      | (Inr bytes_remaining, s1, w1) \<Rightarrow>
          (case filesize ext s1 w1 of
             (Inl e, s2, w2) \<Rightarrow> (Inl e, s2, w2)
           | (Inr logged, s2, w2) \<Rightarrow>
               (case open_wb ext file_path of
                  Some e \<Rightarrow> (Inl e, s2, w2)
                | None \<Rightarrow>
                    (let w3 = w2\<lparr>files := AList.update file_path [] (files w2)\<rparr>;
                         (chunks, failure) = request_stream ext (url s2);
                         w4 = w3\<lparr>stream_log := stream_log w3 @ [url s2]\<rparr>;
                         (r, remaining, fh, w5) =
                           transfer ext m s2 chunks bytes_remaining (FileHandle file_path []) w4;
                         w6 = w5\<lparr>files := AList.update file_path (handler_content fh) (files w5)\<rparr>
                     in case (case r of Some e \<Rightarrow> Some e | None \<Rightarrow> failure) of
                          Some e \<Rightarrow> (Inl e, s2, w6)
                        | None \<Rightarrow>
                            (case on_complete m s2 fh w6 of
                               (Some e, w7) \<Rightarrow> (Inl e, s2, w7)
                             | (None, w7) \<Rightarrow> (Inr file_path, s2, w7))))))"

definition download ::
  "externals \<Rightarrow> 'u monostate \<Rightarrow> stream \<Rightarrow> string option \<Rightarrow> string option \<Rightarrow> string option
     \<Rightarrow> bool \<Rightarrow> 'u world \<Rightarrow> (error + string) \<times> stream \<times> 'u world" where
  "download ext m s output_path filename filename_prefix skip_existing w =
     (case target_path ext s output_path filename filename_prefix of
        Inl e \<Rightarrow> (Inl e, s, w)
      | Inr file_path \<Rightarrow>
          (case skip_condition ext s file_path skip_existing w of
             (Inl e, s0, w0) \<Rightarrow> (Inl e, s0, w0)
           | (Inr skip, s0, w0) \<Rightarrow>
               if skip then (Inr file_path, s0, w0)
               else download_transfer ext m s0 file_path w0))"

definition stream_to_buffer ::
  "externals \<Rightarrow> 'u monostate \<Rightarrow> stream \<Rightarrow> 'u world
     \<Rightarrow> (error + file_handler) \<times> stream \<times> 'u world" where
  "stream_to_buffer ext m s w =
     (case filesize ext s w of
        (Inl e, s1, w1) \<Rightarrow> (Inl e, s1, w1)
      | (Inr bytes_remaining, s1, w1) \<Rightarrow>
          (case filesize ext s1 w1 of
             (Inl e, s2, w2) \<Rightarrow> (Inl e, s2, w2)
           | (Inr logged, s2, w2) \<Rightarrow>
               (let (chunks, failure) = request_stream ext (url s2);
                    w3 = w2\<lparr>stream_log := stream_log w2 @ [url s2]\<rparr>;
                    (r, remaining, buffer, w4) =
                      transfer ext m s2 chunks bytes_remaining (BytesIO []) w3
                in case (case r of Some e \<Rightarrow> Some e | None \<Rightarrow> failure) of
                     Some e \<Rightarrow> (Inl e, s2, w4)
                   | None \<Rightarrow>
                       (case on_complete m s2 buffer w4 of
                          (Some e, w5) \<Rightarrow> (Inl e, s2, w5)
                        | (None, w5) \<Rightarrow> (Inr buffer, s2, w5)))))"

section \<open>Manifest mutations (pytube/mixins.py)\<close>








text \<open>
  The body of the loop of \<open>apply_signature\<close> for one entry: the entry after the
  iteration, or the exception that ends the loop. The solver \<open>cipher.get_signature\<close> is a
  parameter. The arguments of the log call are evaluated before the assignment, so an
  entry without \<open>itag\<close> raises KeyError there.
\<close>

definition sign_stream ::
  "(string \<Rightarrow> pyval \<Rightarrow> error + string) \<Rightarrow> string \<Rightarrow> pyval \<Rightarrow> error + pyval" where
  "sign_stream get_signature js stream =
     and_then (subscript stream ''url'') (\<lambda>u.
     and_then (contains ''signature='' u) (\<lambda>signed.
       if signed then Inr stream
       else
         and_then (subscript stream ''s'') (\<lambda>s.
         and_then (get_signature js s) (\<lambda>signature.
         and_then (subscript stream ''itag'') (\<lambda>logged.
         and_then (add_str u ''&signature='') (\<lambda>u1.
         and_then (add_str u1 signature) (\<lambda>u2.
           case stream of
             PDict d \<Rightarrow> Inr (PDict (AList.update ''url'' u2 d))
           | _ \<Rightarrow> Inl TypeError)))))))"

text \<open>
  The loop over the entries, in order. The entries are mutated in place, so the entries
  signed before an exception stay signed: the list after the loop is returned with the
  exception, if any.
\<close>

fun sign_streams ::
  "(string \<Rightarrow> pyval \<Rightarrow> error + string) \<Rightarrow> string \<Rightarrow> pyval list \<Rightarrow> pyval list \<times> error option" where
  "sign_streams get_signature js [] = ([], None)"
| "sign_streams get_signature js (stream # rest) =
     (case sign_stream get_signature js stream of
        Inl e \<Rightarrow> (stream # rest, Some e)
      | Inr stream' \<Rightarrow>
          (case sign_streams get_signature js rest of
             (rest', r) \<Rightarrow> (stream' # rest', r)))"

text \<open>
  \<open>apply_signature\<close>: \<open>config_args[fmt]\<close> is a list of entries. Iterating a string or a
  dictionary instead yields strings, on which \<open>stream['url']\<close> is a TypeError, unless
  there is nothing to iterate; any other value is not iterable.
\<close>

definition apply_signature ::
  "(string \<Rightarrow> pyval \<Rightarrow> error + string) \<Rightarrow> pydict \<Rightarrow> string \<Rightarrow> string \<Rightarrow> pydict \<times> error option" where
  "apply_signature get_signature config_args fmt js =
     (case subscript (PDict config_args) fmt of
        Inl e \<Rightarrow> (config_args, Some e)
      | Inr stream_manifest \<Rightarrow>
          (case stream_manifest of
             PList streams \<Rightarrow>
               (case sign_streams get_signature js streams of
                  (streams', r) \<Rightarrow> (AList.update fmt (PList streams') config_args, r))
           | PStr cs \<Rightarrow> (config_args, if cs = [] then None else Some TypeError)
           | PDict d \<Rightarrow> (config_args, if d = [] then None else Some TypeError)
           | _ \<Rightarrow> (config_args, Some TypeError)))"

section \<open>Notions used in the statements, and example inputs\<close>

definition progressive_example :: stream_core where
  "progressive_example = \<lparr>url = PStr ''https://host/videoplayback?itag=43'', itag = 43,
     mime_type = ''video/webm'', codecs = [''vp8'', ''vorbis''], type = ''video'', subtype = ''webm''\<rparr>"

definition video_only_example :: stream_core where
  "video_only_example = \<lparr>url = PStr ''https://host/videoplayback?itag=218'', itag = 218,
     mime_type = ''video/webm'', codecs = [''vp8''], type = ''video'', subtype = ''webm''\<rparr>"

definition audio_only_example :: stream_core where
  "audio_only_example = \<lparr>url = PStr ''https://host/videoplayback?itag=171'', itag = 171,
     mime_type = ''audio/webm'', codecs = [''vorbis''], type = ''audio'', subtype = ''webm''\<rparr>"

definition text_track_example :: stream_core where
  "text_track_example = \<lparr>url = PStr ''https://host/videoplayback?itag=0'', itag = 0,
     mime_type = ''text/vtt'', codecs = [''wvtt''], type = ''text'', subtype = ''vtt''\<rparr>"

text \<open>
  Notions used in the statement about \<open>title\<close>: the value under a key when the key is
  present and its value is truthy, and the nested video-details mapping when the values
  on the way to it are mappings (an absent level counts as the empty mapping).
\<close>

definition present_truthy :: "pydict \<Rightarrow> string \<Rightarrow> pyval option" where
  "present_truthy d k =
     (case map_of d k of None \<Rightarrow> None | Some v \<Rightarrow> if truthy v then Some v else None)"

definition video_details :: "pydict \<Rightarrow> pydict option" where
  "video_details config =
     (case map_of config ''player_response'' of
        None \<Rightarrow> Some []
      | Some pr \<Rightarrow>
          (case pr of
             PDict d \<Rightarrow>
               (case map_of d ''videoDetails'' of
                  None \<Rightarrow> Some []
                | Some vd \<Rightarrow> (case vd of PDict d' \<Rightarrow> Some d' | _ \<Rightarrow> None))
           | _ \<Rightarrow> None))"

text \<open>A progressive stream, used to evaluate the operations on concrete inputs.\<close>

definition example_profile :: profile where
  "example_profile = \<lparr>profile_is_dash = PBool False, profile_abr = PStr ''96kbps'',
     profile_fps = PInt 30, profile_resolution = PStr ''360p'', profile_is_3d = PBool False,
     profile_is_hdr = PBool False, profile_is_live = PBool False\<rparr>"

definition example_stream :: stream where
  "example_stream = \<lparr>url = PStr ''https://host/videoplayback?itag=18'', itag = 18,
     mime_type = ''video/mp4'', codecs = [''avc1.42001E'', ''mp4a.40.2''], type = ''video'',
     subtype = ''mp4'', video_codec = Some ''avc1.42001E'', audio_codec = Some ''mp4a.40.2'',
     filesize_cache = None, is_dash = PBool False, abr = PStr ''96kbps'', fps = PInt 30,
     resolution = PStr ''360p'', is_3d = PBool False, is_hdr = PBool False,
     is_live = PBool False, player_config_args = [(''title'', PStr ''My Video'')]\<rparr>"

text \<open>
  Collaborators for the example inputs: a decimal \<open>int\<close>, an extractor that knows one
  type string, a profile table with the single itag 18, and a transport that reports a
  content-length of 5 and streams the chunks \<open>abc\<close> and \<open>de\<close>, and a filesystem that
  refuses to open files under \<open>/readonly/\<close> and to let a file grow beyond 1000 bytes.
  The callbacks of the example registry count the bytes received and mark completion in
  the user state.
\<close>

definition example_int :: "pyval \<Rightarrow> error + int" where
  "example_int v =
     (case v of
        PInt i \<Rightarrow> Inr i
      | PStr s \<Rightarrow>
          if s \<noteq> [] \<and> list_all (\<lambda>c. 48 \<le> (of_char c :: nat) \<and> (of_char c :: nat) \<le> 57) s
          then Inr (int (foldl (\<lambda>n c. 10 * n + (of_char c - 48)) 0 s))
          else Inl ValueError
      | _ \<Rightarrow> Inl TypeError)"

definition example_type :: string where
  "example_type = ''video/mp4; codecs='' @ [CHR 0x22] @ ''avc1.42001E, mp4a.40.2'' @ [CHR 0x22]"

definition example_externals :: externals where
  "example_externals = \<lparr>
     py_int = example_int,
     mime_type_codec = (\<lambda>v. if v = PStr example_type
        then Inr (''video/mp4'', [''avc1.42001E'', ''mp4a.40.2''])
        else Inl (ExternalError ''RegexMatchError'')),
     itags = [(18, example_profile)],
     safe_filename = filter (\<lambda>c. c \<noteq> CHR ''/''),
     target_directory = (\<lambda>p. case p of None \<Rightarrow> ''/cwd'' | Some d \<Rightarrow> d),
     path_join = (\<lambda>d f. d @ ''/'' @ f),
     request_headers = (\<lambda>u. Inr [(''content-length'', PStr ''5'')]),
     request_stream = (\<lambda>u. ([''abc'', ''de''], None)),
     open_wb = (\<lambda>path. if sublist ''/readonly/'' path then Some (OSError ''EACCES'') else None),
     file_write = (\<lambda>path written chunk.
        if 1000 < length written + length chunk then Some (OSError ''ENOSPC'') else None)\<rparr>"

definition example_world :: "nat world" where
  "example_world = \<lparr>files = [], headers_log = [], stream_log = [], trace = [], user = 0\<rparr>"

definition example_monostate :: "nat monostate" where
  "example_monostate = \<lparr>
     on_progress_callback = Some (\<lambda>s chunk fh remaining u. (u + length chunk, None)),
     on_complete_callback = Some (\<lambda>s fh u. (u + 1000, None))\<rparr>"

definition unknown_itag_record :: pydict where
  "unknown_itag_record = [(''url'', PStr ''https://host/videoplayback?itag=99''),
     (''itag'', PStr ''99''), (''type'', PStr example_type)]"

text \<open>
  The loop of \<open>apply_signature\<close> skips an entry exactly when reading its url succeeds and
  the url contains the marker \<open>signature=\<close>.
\<close>

definition already_signed :: "pyval \<Rightarrow> bool" where
  "already_signed stream =
     (case subscript stream ''url'' of
        Inl e \<Rightarrow> False
      | Inr u \<Rightarrow> contains ''signature='' u = Inr True)"

text \<open>
  Example solvers and manifest entries: a solver that always fails, a solver that
  reverses the token, an entry still to be signed, the same entry after signing by the
  reversing solver, and an entry the platform delivered signed.
\<close>

definition failing_solver :: "string \<Rightarrow> pyval \<Rightarrow> error + string" where
  "failing_solver js s = Inl (ExternalError ''RegexMatchError'')"

definition reversing_solver :: "string \<Rightarrow> pyval \<Rightarrow> error + string" where
  "reversing_solver js s = (case s of PStr token \<Rightarrow> Inr (rev token) | _ \<Rightarrow> Inl TypeError)"

definition unsigned_entry :: "string \<Rightarrow> pyval" where
  "unsigned_entry tag = PDict [(''itag'', PStr tag), (''url'', PStr ''https://host/v?id=1''),
     (''s'', PStr ''ABC'')]"

definition signed_entry :: "string \<Rightarrow> pyval" where
  "signed_entry tag = PDict [(''itag'', PStr tag),
     (''url'', PStr ''https://host/v?id=1&signature=CBA''), (''s'', PStr ''ABC'')]"

definition presigned_entry :: pyval where
  "presigned_entry = PDict [(''itag'', PStr ''5''),
     (''url'', PStr ''https://host/v?id=0&signature=XYZ'')]"

text \<open>
  Notions used in the statement about the transfer: the remaining byte count after the
  first \<open>i\<close> chunks of a stream of total size \<open>T\<close>; the events of a transfer of the
  chunks \<open>cs\<close>, chunk by chunk (the write, then the progress call with the remaining
  count if a progress callback is registered); the user state after the progress callback
  has been applied once per chunk, in order, to the stream, the chunk, the sink holding
  everything up to that chunk and the remaining count after it; the user state after the
  completion callback has been applied; the condition that the registered callbacks
  return normally, whatever they are called with; and the condition that the filesystem
  accepts opening the file and each write of the transfer.
\<close>

definition remaining_after :: "int \<Rightarrow> chunk list \<Rightarrow> nat \<Rightarrow> int" where
  "remaining_after T cs i = T - int (sum_list (map length (take i cs)))"

definition progress_events :: "bool \<Rightarrow> int \<Rightarrow> chunk list \<Rightarrow> event list" where
  "progress_events registered T cs =
     concat (map (\<lambda>i. Written (cs ! i) #
                   (if registered then [ProgressCall (cs ! i) (remaining_after T cs (Suc i))]
                    else []))
               [0..<length cs])"

definition user_after_progress ::
  "'u monostate \<Rightarrow> stream \<Rightarrow> (chunk \<Rightarrow> file_handler) \<Rightarrow> chunk \<Rightarrow> int \<Rightarrow> chunk list \<Rightarrow> 'u \<Rightarrow> 'u" where
  "user_after_progress m s sink written T cs u0 =
     foldl (\<lambda>u i. case on_progress_callback m of
                    None \<Rightarrow> u
                  | Some cb \<Rightarrow>
                      fst (cb s (cs ! i) (sink (written @ concat (take (Suc i) cs)))
                             (remaining_after T cs (Suc i)) u))
       u0 [0..<length cs]"

definition user_after_complete :: "'u monostate \<Rightarrow> stream \<Rightarrow> file_handler \<Rightarrow> 'u \<Rightarrow> 'u" where
  "user_after_complete m s fh u =
     (case on_complete_callback m of None \<Rightarrow> u | Some cb \<Rightarrow> fst (cb s fh u))"

definition callbacks_return :: "'u monostate \<Rightarrow> bool" where
  "callbacks_return m \<longleftrightarrow>
     (\<forall>cb st c fh r u. on_progress_callback m = Some cb \<longrightarrow> snd (cb st c fh r u) = None) \<and>
     (\<forall>cb st fh u. on_complete_callback m = Some cb \<longrightarrow> snd (cb st fh u) = None)"

definition writes_accepted :: "externals \<Rightarrow> string \<Rightarrow> chunk list \<Rightarrow> bool" where
  "writes_accepted ext path cs \<longleftrightarrow>
     open_wb ext path = None \<and>
     (\<forall>i<length cs. file_write ext path (concat (take i cs)) (cs ! i) = None)"

text \<open>A world in which the target file of the example stream exists with 5 bytes.\<close>

definition existing_world :: "nat world" where
  "existing_world = \<lparr>files = [(''/cwd/My Video.mp4'', ''12345'')], headers_log = [],
     stream_log = [], trace = [], user = 0\<rparr>"

section \<open>Properties of the stream descriptor\<close>

lemma and_then_simps [simp]:
  "and_then (Inl e) f = Inl e"
  "and_then (Inr v) f = f v"
  by (simp_all add: and_then_def)

lemma adaptive_nonempty: "is_adaptive s \<Longrightarrow> \<exists>c cs. codecs s = c # cs"
  by (cases "codecs s") (simp_all add: is_adaptive_def)

text \<open>
  Claim C4. A stream is adaptive exactly when its codec list has odd length and
  progressive exactly when the length is even. A progressive stream takes its video codec
  from the first entry and its audio codec from the second (the unpacking accepts exactly
  two entries and raises ValueError otherwise, so no descriptor with another even count
  exists); an adaptive stream of major type \<open>video\<close> takes the first entry as video codec
  and has no audio codec; an adaptive stream of major type \<open>audio\<close> takes the first entry
  as audio codec and has no video codec. The codec lists \<open>["vp8","vorbis"]\<close>,
  \<open>["vp8"]\<close> and \<open>["vorbis"]\<close> give a progressive stream with both tracks, an adaptive
  video-only stream and an adaptive audio-only stream.
\<close>

theorem codec_parity_classification:
  fixes s :: "'a stream_core_scheme"
  shows
  "(is_adaptive s \<longleftrightarrow> odd (length (codecs s))) \<and>
   (is_progressive s \<longleftrightarrow> even (length (codecs s))) \<and>
   (is_progressive s \<longrightarrow>
      parse_codecs s = (case codecs s of [v, a] \<Rightarrow> Inr (Some v, Some a) | _ \<Rightarrow> Inl ValueError)) \<and>
   (is_adaptive s \<and> type s = ''video'' \<longrightarrow>
      codecs s \<noteq> [] \<and> parse_codecs s = Inr (Some (codecs s ! 0), None)) \<and>
   (is_adaptive s \<and> type s = ''audio'' \<longrightarrow>
      codecs s \<noteq> [] \<and> parse_codecs s = Inr (None, Some (codecs s ! 0))) \<and>
   (codecs s = [''vp8'', ''vorbis''] \<longrightarrow>
      is_progressive s \<and> includes_video_track s \<and> includes_audio_track s \<and>
      parse_codecs s = Inr (Some ''vp8'', Some ''vorbis'')) \<and>
   (codecs s = [''vp8''] \<and> type s = ''video'' \<longrightarrow>
      is_adaptive s \<and> includes_video_track s \<and> \<not> includes_audio_track s \<and>
      parse_codecs s = Inr (Some ''vp8'', None)) \<and>
   (codecs s = [''vorbis''] \<and> type s = ''audio'' \<longrightarrow>
      is_adaptive s \<and> includes_audio_track s \<and> \<not> includes_video_track s \<and>
      parse_codecs s = Inr (None, Some ''vorbis''))"
proof -
  have parity: "is_adaptive s \<longleftrightarrow> odd (length (codecs s))"
    by (simp add: is_adaptive_def odd_iff_mod_2_eq_one)
  have prog: "is_progressive s \<longleftrightarrow> even (length (codecs s))"
    by (simp add: is_progressive_def parity)
  have p: "is_progressive s \<longrightarrow>
      parse_codecs s = (case codecs s of [v, a] \<Rightarrow> Inr (Some v, Some a) | _ \<Rightarrow> Inl ValueError)"
    by (simp add: parse_codecs_def is_progressive_def)
  have v: "is_adaptive s \<and> type s = ''video'' \<longrightarrow>
      codecs s \<noteq> [] \<and> parse_codecs s = Inr (Some (codecs s ! 0), None)"
    using adaptive_nonempty [of s]
    by (auto simp: parse_codecs_def includes_video_track_def)
  have a: "is_adaptive s \<and> type s = ''audio'' \<longrightarrow>
      codecs s \<noteq> [] \<and> parse_codecs s = Inr (None, Some (codecs s ! 0))"
    using adaptive_nonempty [of s]
    by (auto simp: parse_codecs_def includes_video_track_def includes_audio_track_def
        is_progressive_def)
  have e1: "codecs s = [''vp8'', ''vorbis''] \<longrightarrow>
      is_progressive s \<and> includes_video_track s \<and> includes_audio_track s \<and>
      parse_codecs s = Inr (Some ''vp8'', Some ''vorbis'')"
    by (simp add: parse_codecs_def includes_video_track_def includes_audio_track_def
        is_progressive_def is_adaptive_def)
  have e2: "codecs s = [''vp8''] \<and> type s = ''video'' \<longrightarrow>
      is_adaptive s \<and> includes_video_track s \<and> \<not> includes_audio_track s \<and>
      parse_codecs s = Inr (Some ''vp8'', None)"
    by (simp add: parse_codecs_def includes_video_track_def includes_audio_track_def
        is_progressive_def is_adaptive_def)
  have e3: "codecs s = [''vorbis''] \<and> type s = ''audio'' \<longrightarrow>
      is_adaptive s \<and> includes_audio_track s \<and> \<not> includes_video_track s \<and>
      parse_codecs s = Inr (None, Some ''vorbis'')"
    by (simp add: parse_codecs_def includes_video_track_def includes_audio_track_def
        is_progressive_def is_adaptive_def)
  from parity prog p v a e1 e2 e3 show ?thesis by blast
qed

theorem codec_parity_classification_witness:
  "is_progressive progressive_example \<and>
   parse_codecs progressive_example = Inr (Some ''vp8'', Some ''vorbis'') \<and>
   includes_video_track progressive_example \<and> includes_audio_track progressive_example \<and>
   is_adaptive video_only_example \<and>
   parse_codecs video_only_example = Inr (Some ''vp8'', None) \<and>
   \<not> includes_audio_track video_only_example \<and>
   is_adaptive audio_only_example \<and>
   parse_codecs audio_only_example = Inr (None, Some ''vorbis'') \<and>
   \<not> includes_video_track audio_only_example"
  using codec_parity_classification [of progressive_example]
    codec_parity_classification [of video_only_example]
    codec_parity_classification [of audio_only_example]
  by (simp add: progressive_example_def video_only_example_def audio_only_example_def)

text \<open>
  Claim C10. An adaptive stream (odd codec count) whose major type is neither \<open>video\<close>
  nor \<open>audio\<close> gets no video codec and no audio codec from \<open>parse_codecs\<close>, and it
  reports neither an audio track nor a video track.
\<close>

theorem adaptive_other_type_no_tracks:
  fixes s :: "'a stream_core_scheme"
  assumes "odd (length (codecs s))" and "type s \<noteq> ''video''" and "type s \<noteq> ''audio''"
  shows "is_adaptive s \<and> parse_codecs s = Inr (None, None) \<and>
         \<not> includes_audio_track s \<and> \<not> includes_video_track s"
  using assms
  by (simp add: parse_codecs_def includes_video_track_def includes_audio_track_def
      is_progressive_def is_adaptive_def odd_iff_mod_2_eq_one)

theorem adaptive_other_type_no_tracks_witness:
  "odd (length (codecs text_track_example)) \<and> type text_track_example \<noteq> ''video'' \<and>
   type text_track_example \<noteq> ''audio'' \<and>
   is_adaptive text_track_example \<and> parse_codecs text_track_example = Inr (None, None) \<and>
   \<not> includes_audio_track text_track_example \<and> \<not> includes_video_track text_track_example"
proof -
  have h1: "odd (length (codecs text_track_example))"
    by (simp add: text_track_example_def)
  have h2: "type text_track_example \<noteq> ''video''"
    by (simp add: text_track_example_def)
  have h3: "type text_track_example \<noteq> ''audio''"
    by (simp add: text_track_example_def)
  from adaptive_other_type_no_tracks [OF h1 h2 h3] h1 h2 h3 show ?thesis by simp
qed

text \<open>
  Claim C8, as amended. The title lookup returns the explicit title field when it is
  present and truthy (for a string: non-empty). Otherwise, provided that the
  \<open>player_response\<close> value, when present, is a mapping and its \<open>videoDetails\<close> value, when
  present, is a mapping, it returns the nested video-details title when that is present
  and truthy, and the fixed placeholder string when it is not; under that proviso the
  lookup does not fail.
\<close>

theorem title_precedence:
  fixes s :: "'a stream_scheme"
  shows
  "(present_truthy (player_config_args s) ''title'' = Some t \<longrightarrow> title s = Inr t) \<and>
   (video_details (player_config_args s) = Some vd \<longrightarrow>
      title s = Inr (case present_truthy (player_config_args s) ''title'' of
                       Some t1 \<Rightarrow> t1
                     | None \<Rightarrow>
                         (case present_truthy vd ''title'' of
                            Some t2 \<Rightarrow> t2
                          | None \<Rightarrow> PStr ''Unknown YouTube Video Title'')))"
proof -
  have explicit: "present_truthy (player_config_args s) ''title'' = Some t \<longrightarrow> title s = Inr t"
    by (auto simp: title_def present_truthy_def split: option.splits if_splits)
  have nested: "video_details (player_config_args s) = Some vd \<longrightarrow>
      title s = Inr (case present_truthy (player_config_args s) ''title'' of
                       Some t1 \<Rightarrow> t1
                     | None \<Rightarrow>
                         (case present_truthy vd ''title'' of
                            Some t2 \<Rightarrow> t2
                          | None \<Rightarrow> PStr ''Unknown YouTube Video Title''))"
    by (auto simp: title_def present_truthy_def video_details_def
        split: option.splits if_splits pyval.splits)
  from explicit nested show ?thesis by blast
qed

theorem title_precedence_witness:
  "title (example_stream\<lparr>player_config_args := [(''title'', PStr ''My Video'')]\<rparr>)
     = Inr (PStr ''My Video'') \<and>
   title (example_stream\<lparr>player_config_args :=
       [(''player_response'', PDict [(''videoDetails'', PDict [(''title'', PStr ''Nested'')])])]\<rparr>)
     = Inr (PStr ''Nested'') \<and>
   title (example_stream\<lparr>player_config_args := []\<rparr>) = Inr (PStr ''Unknown YouTube Video Title'')"
  using
    title_precedence [of "example_stream\<lparr>player_config_args := [(''title'', PStr ''My Video'')]\<rparr>"
      "PStr ''My Video''" "[]"]
    title_precedence [of "example_stream\<lparr>player_config_args :=
       [(''player_response'', PDict [(''videoDetails'', PDict [(''title'', PStr ''Nested'')])])]\<rparr>"
      "PNone" "[(''title'', PStr ''Nested'')]"]
    title_precedence [of "example_stream\<lparr>player_config_args := []\<rparr>" "PNone" "[]"]
  by (simp add: present_truthy_def video_details_def)

text \<open>
  The claim as stated fails on two inputs: an explicit title that is present but empty
  is passed over in favour of the nested title, and a \<open>player_response\<close> value that is
  not a mapping makes the lookup raise AttributeError.
\<close>

theorem title_counterexample:
  "title (example_stream\<lparr>player_config_args :=
       [(''title'', PStr ''''),
        (''player_response'', PDict [(''videoDetails'', PDict [(''title'', PStr ''Nested'')])])]\<rparr>)
     = Inr (PStr ''Nested'') \<and>
   title (example_stream\<lparr>player_config_args :=
       [(''title'', PStr ''''),
        (''player_response'', PDict [(''videoDetails'', PDict [(''title'', PStr ''Nested'')])])]\<rparr>)
     \<noteq> Inr (PStr '''') \<and>
   title (example_stream\<lparr>player_config_args := [(''player_response'', PStr ''{}'')]\<rparr>)
     = Inl AttributeError"
  by (simp add: title_def)

section \<open>Construction with an unknown itag\<close>

text \<open>
  Claim C7. For every record whose itag is absent from the static profile table,
  constructing a stream descriptor fails and yields no descriptor, partial or whole; when
  the statements that precede the table lookup succeed (the record has a url and a type,
  and the type gives a major type, a subtype and one or two codecs), the failure is
  UnknownFormatError.
\<close>

theorem unknown_itag_fails:
  assumes "map_of stream_record ''itag'' = Some it"
    and "py_int ext it = Inr i"
    and "map_of (itags ext) i = None"
  shows "(\<forall>d. Stream_init ext stream_record config \<noteq> Inr d) \<and>
         (map_of stream_record ''url'' = Some u \<and> map_of stream_record ''type'' = Some ty \<and>
          mime_type_codec ext ty = Inr (mt, cs) \<and> split_on CHR ''/'' mt = [t, st] \<and>
          (length cs = 2 \<or> odd (length cs)) \<longrightarrow>
            Stream_init ext stream_record config = Inl UnknownFormatError)"
proof -
  have lookup: "get_format_profile (itags ext) i = Inl UnknownFormatError"
    using assms(3) by (simp add: get_format_profile_def)
  have never: "\<forall>d. Stream_init ext stream_record config \<noteq> Inr d"
    using assms(1,2) lookup
    by (auto simp: Stream_init_def and_then_def Let_def
        split: sum.splits option.splits list.splits prod.splits)
  have codecs_ok: "length cs = 2 \<or> odd (length cs) \<Longrightarrow>
      \<exists>v a. parse_codecs \<lparr>url = u, itag = i, mime_type = mt, codecs = cs, type = t, subtype = st\<rparr>
        = Inr (v, a)"
    by (cases cs rule: list.exhaust; cases "tl cs"; cases "tl (tl cs)")
       (auto simp: parse_codecs_def is_adaptive_def split: list.splits)
  have reached: "map_of stream_record ''url'' = Some u \<and> map_of stream_record ''type'' = Some ty \<and>
          mime_type_codec ext ty = Inr (mt, cs) \<and> split_on CHR ''/'' mt = [t, st] \<and>
          (length cs = 2 \<or> odd (length cs)) \<longrightarrow>
            Stream_init ext stream_record config = Inl UnknownFormatError"
  proof
    assume h: "map_of stream_record ''url'' = Some u \<and> map_of stream_record ''type'' = Some ty \<and>
          mime_type_codec ext ty = Inr (mt, cs) \<and> split_on CHR ''/'' mt = [t, st] \<and>
          (length cs = 2 \<or> odd (length cs))"
    then obtain v a where
      "parse_codecs \<lparr>url = u, itag = i, mime_type = mt, codecs = cs, type = t, subtype = st\<rparr>
        = Inr (v, a)"
      using codecs_ok by blast
    with h assms(1,2) lookup show "Stream_init ext stream_record config = Inl UnknownFormatError"
      by (simp add: Stream_init_def)
  qed
  from never reached show ?thesis by blast
qed


theorem unknown_itag_fails_witness:
  "map_of unknown_itag_record ''itag'' = Some (PStr ''99'') \<and>
   py_int example_externals (PStr ''99'') = Inr 99 \<and>
   map_of (itags example_externals) 99 = None \<and>
   Stream_init example_externals unknown_itag_record [(''title'', PStr ''My Video'')]
     = Inl UnknownFormatError"
proof -
  have h1: "map_of unknown_itag_record ''itag'' = Some (PStr ''99'')"
    by (simp add: unknown_itag_record_def)
  have h2: "py_int example_externals (PStr ''99'') = Inr 99"
    by (simp add: example_externals_def example_int_def)
  have h3: "map_of (itags example_externals) 99 = None"
    by (simp add: example_externals_def)
  have h4: "map_of unknown_itag_record ''url'' = Some (PStr ''https://host/videoplayback?itag=99'') \<and>
     map_of unknown_itag_record ''type'' = Some (PStr example_type) \<and>
     mime_type_codec example_externals (PStr example_type)
       = Inr (''video/mp4'', [''avc1.42001E'', ''mp4a.40.2'']) \<and>
     split_on CHR ''/'' ''video/mp4'' = [''video'', ''mp4''] \<and>
     (length [''avc1.42001E'', ''mp4a.40.2''] = 2 \<or> odd (length [''avc1.42001E'', ''mp4a.40.2'']))"
    by (simp add: unknown_itag_record_def example_externals_def)
  from unknown_itag_fails [OF h1 h2 h3, of "[(''title'', PStr ''My Video'')]"
      "PStr ''https://host/videoplayback?itag=99''" "PStr example_type" "''video/mp4''"
      "[''avc1.42001E'', ''mp4a.40.2'']" "''video''" "''mp4''"] h1 h2 h3 h4
  show ?thesis by blast
qed

section \<open>The filesize cache\<close>

lemma filesize_hit: "filesize_cache s = Some n \<Longrightarrow> filesize ext s w = (Inr n, s, w)"
  by (simp add: filesize_def)

lemma filesize_result:
  "filesize ext s w = (Inr n, s1, w1) \<Longrightarrow> filesize_cache s1 = Some n"
  by (auto simp: filesize_def Let_def split: option.splits sum.splits)

lemma filesize_first:
  "filesize_cache s = None \<Longrightarrow> request_headers ext (url s) = Inr hs \<Longrightarrow>
   map_of hs ''content-length'' = Some v \<Longrightarrow> py_int ext v = Inr n \<Longrightarrow>
   filesize ext s w
     = (Inr n, s\<lparr>filesize_cache := Some n\<rparr>, w\<lparr>headers_log := headers_log w @ [url s]\<rparr>)"
  by (simp add: filesize_def)

lemma on_progress_logs:
  "on_progress ext m s c fh r w = (res, fh', w') \<Longrightarrow>
   files w' = files w \<and> headers_log w' = headers_log w \<and> stream_log w' = stream_log w"
  by (auto simp: on_progress_def Let_def split: option.splits prod.splits sum.splits)

lemma transfer_logs:
  "transfer ext m s cs r fh w = (res, r', fh', w') \<Longrightarrow>
   files w' = files w \<and> headers_log w' = headers_log w \<and> stream_log w' = stream_log w"
proof (induction cs arbitrary: r fh w)
  case Nil
  then show ?case by simp
next
  case (Cons c cs)
  obtain res1 fh1 w1 where step: "on_progress ext m s c fh (r - int (length c)) w = (res1, fh1, w1)"
    by (cases "on_progress ext m s c fh (r - int (length c)) w") auto
  note keep = on_progress_logs [OF step]
  show ?case
  proof (cases res1)
    case None
    with Cons.prems step have "transfer ext m s cs (r - int (length c)) fh1 w1 = (res, r', fh', w')"
      by (simp add: Let_def)
    from Cons.IH [OF this] keep show ?thesis by simp
  next
    case (Some e)
    with Cons.prems step keep show ?thesis by (auto simp: Let_def)
  qed
qed

lemma on_complete_logs:
  "on_complete m s fh w = (res, w') \<Longrightarrow>
   files w' = files w \<and> headers_log w' = headers_log w \<and> stream_log w' = stream_log w"
  by (auto simp: on_complete_def Let_def split: option.splits prod.splits)

lemma download_transfer_cached:
  assumes "filesize_cache s = Some n"
  shows "fst (snd (download_transfer ext m s file_path w)) = s \<and>
         headers_log (snd (snd (download_transfer ext m s file_path w))) = headers_log w"
proof (cases "open_wb ext file_path")
  case (Some e)
  then show ?thesis
    by (simp add: download_transfer_def filesize_hit [OF assms])
next
  case None
  obtain chunks failure where st: "request_stream ext (url s) = (chunks, failure)"
    by (cases "request_stream ext (url s)") auto
  let ?w4 = "w\<lparr>files := AList.update file_path [] (files w),
                 stream_log := stream_log w @ [url s]\<rparr>"
  obtain r rem fh w5 where
    tr: "transfer ext m s chunks n (FileHandle file_path []) ?w4 = (r, rem, fh, w5)"
    by (cases "transfer ext m s chunks n (FileHandle file_path []) ?w4") auto
  have k5: "headers_log w5 = headers_log w"
    using transfer_logs [OF tr] by simp
  let ?w6 = "w5\<lparr>files := AList.update file_path (handler_content fh) (files w5)\<rparr>"
  obtain rc w7 where oc: "on_complete m s fh ?w6 = (rc, w7)"
    by (cases "on_complete m s fh ?w6") auto
  have k7: "headers_log w7 = headers_log w"
    using on_complete_logs [OF oc] k5 by simp
  show ?thesis
    using None st tr oc k5 k7
    by (auto simp: download_transfer_def filesize_hit [OF assms] Let_def split: option.splits)
qed

lemma stream_to_buffer_cached:
  assumes "filesize_cache s = Some n"
  shows "fst (snd (stream_to_buffer ext m s w)) = s \<and>
         headers_log (snd (snd (stream_to_buffer ext m s w))) = headers_log w"
proof -
  obtain chunks failure where st: "request_stream ext (url s) = (chunks, failure)"
    by (cases "request_stream ext (url s)") auto
  let ?w3 = "w\<lparr>stream_log := stream_log w @ [url s]\<rparr>"
  obtain r rem fh w4 where tr: "transfer ext m s chunks n (BytesIO []) ?w3 = (r, rem, fh, w4)"
    by (cases "transfer ext m s chunks n (BytesIO []) ?w3") auto
  have k4: "headers_log w4 = headers_log w"
    using transfer_logs [OF tr] by simp
  obtain rc w5 where oc: "on_complete m s fh w4 = (rc, w5)"
    by (cases "on_complete m s fh w4") auto
  have k5: "headers_log w5 = headers_log w"
    using on_complete_logs [OF oc] k4 by simp
  show ?thesis
    using st tr oc k4 k5
    by (auto simp: stream_to_buffer_def filesize_hit [OF assms] Let_def split: option.splits)
qed

lemma skip_condition_cached:
  assumes "filesize_cache s = Some n"
  shows "fst (snd (skip_condition ext s file_path skip_existing w)) = s \<and>
         snd (snd (skip_condition ext s file_path skip_existing w)) = w \<and>
         (\<exists>b. fst (skip_condition ext s file_path skip_existing w) = Inr b)"
  by (auto simp: skip_condition_def filesize_hit [OF assms] split: option.splits)

lemma download_cached:
  assumes "filesize_cache s = Some n"
  shows "fst (snd (download ext m s output_path filename filename_prefix skip_existing w)) = s \<and>
         headers_log (snd (snd (download ext m s output_path filename filename_prefix
           skip_existing w))) = headers_log w"
proof (cases "target_path ext s output_path filename filename_prefix")
  case (Inl e)
  then show ?thesis by (simp add: download_def)
next
  case (Inr file_path)
  obtain b where sk: "skip_condition ext s file_path skip_existing w = (Inr b, s, w)"
    using skip_condition_cached [OF assms, of ext file_path skip_existing w]
    by (cases "skip_condition ext s file_path skip_existing w") auto
  show ?thesis
    using Inr sk download_transfer_cached [OF assms, of ext m file_path w]
    by (simp add: download_def)
qed

text \<open>
  Claim C9. The first access to \<open>filesize\<close> issues one headers request, reads the
  content-length and stores it in the cache; an access with the cache set returns the
  cached value and changes nothing, so it issues no headers request; an access directly
  after a successful one returns the same value again without a request. The other
  operations that carry the descriptor, \<open>download\<close> and \<open>stream_to_buffer\<close>, leave a
  set cache as it is and issue no headers request.
\<close>

theorem filesize_cached_once:
  "(filesize_cache s = None \<and> request_headers ext (url s) = Inr hs \<and>
    map_of hs ''content-length'' = Some v \<and> py_int ext v = Inr n \<longrightarrow>
      filesize ext s w
        = (Inr n, s\<lparr>filesize_cache := Some n\<rparr>, w\<lparr>headers_log := headers_log w @ [url s]\<rparr>)) \<and>
   (filesize_cache s = Some n \<longrightarrow> filesize ext s w = (Inr n, s, w)) \<and>
   (filesize ext s w = (Inr n, s1, w1) \<longrightarrow>
      filesize_cache s1 = Some n \<and> filesize ext s1 w1 = (Inr n, s1, w1)) \<and>
   (filesize_cache s = Some n \<longrightarrow>
      fst (snd (download ext m s output_path filename filename_prefix skip_existing w)) = s \<and>
      headers_log (snd (snd (download ext m s output_path filename filename_prefix
        skip_existing w))) = headers_log w \<and>
      fst (snd (stream_to_buffer ext m s w)) = s \<and>
      headers_log (snd (snd (stream_to_buffer ext m s w))) = headers_log w)"
proof -
  have first: "filesize_cache s = None \<and> request_headers ext (url s) = Inr hs \<and>
    map_of hs ''content-length'' = Some v \<and> py_int ext v = Inr n \<longrightarrow>
      filesize ext s w
        = (Inr n, s\<lparr>filesize_cache := Some n\<rparr>, w\<lparr>headers_log := headers_log w @ [url s]\<rparr>)"
    using filesize_first [of s ext hs v n w] by blast
  have later: "filesize_cache s = Some n \<longrightarrow> filesize ext s w = (Inr n, s, w)"
    using filesize_hit [of s n ext w] by blast
  have again: "filesize ext s w = (Inr n, s1, w1) \<longrightarrow>
      filesize_cache s1 = Some n \<and> filesize ext s1 w1 = (Inr n, s1, w1)"
    using filesize_result [of ext s w n s1 w1] filesize_hit [of s1 n ext w1] by blast
  have kept: "filesize_cache s = Some n \<longrightarrow>
      fst (snd (download ext m s output_path filename filename_prefix skip_existing w)) = s \<and>
      headers_log (snd (snd (download ext m s output_path filename filename_prefix
        skip_existing w))) = headers_log w \<and>
      fst (snd (stream_to_buffer ext m s w)) = s \<and>
      headers_log (snd (snd (stream_to_buffer ext m s w))) = headers_log w"
    using download_cached [of s n ext m output_path filename filename_prefix skip_existing w]
      stream_to_buffer_cached [of s n ext m w] by blast
  from first later again kept show ?thesis by blast
qed


theorem filesize_cached_once_witness:
  "filesize example_externals example_stream example_world
     = (Inr 5, example_stream\<lparr>filesize_cache := Some 5\<rparr>,
        example_world\<lparr>headers_log := [url example_stream]\<rparr>) \<and>
   filesize example_externals (example_stream\<lparr>filesize_cache := Some 5\<rparr>)
       (example_world\<lparr>headers_log := [url example_stream]\<rparr>)
     = (Inr 5, example_stream\<lparr>filesize_cache := Some 5\<rparr>,
        example_world\<lparr>headers_log := [url example_stream]\<rparr>) \<and>
   fst (snd (stream_to_buffer example_externals example_monostate
       (example_stream\<lparr>filesize_cache := Some 5\<rparr>)
       (example_world\<lparr>headers_log := [url example_stream]\<rparr>)))
     = example_stream\<lparr>filesize_cache := Some 5\<rparr> \<and>
   headers_log (snd (snd (download example_externals example_monostate
       (example_stream\<lparr>filesize_cache := Some 5\<rparr>) None None None True
       (example_world\<lparr>headers_log := [url example_stream]\<rparr>))))
     = [url example_stream]"
proof -
  have h1: "filesize_cache example_stream = None"
    by (simp add: example_stream_def)
  have h2: "request_headers example_externals (url example_stream)
              = Inr [(''content-length'', PStr ''5'')]"
    by (simp add: example_externals_def)
  have h3: "map_of [(''content-length'', PStr ''5'')] ''content-length'' = Some (PStr ''5'')"
    by simp
  have h4: "py_int example_externals (PStr ''5'') = Inr 5"
    by (simp add: example_externals_def example_int_def)
  have h5: "filesize_cache (example_stream\<lparr>filesize_cache := Some 5\<rparr>) = Some 5"
    by simp
  have first: "filesize example_externals example_stream example_world
     = (Inr 5, example_stream\<lparr>filesize_cache := Some 5\<rparr>,
        example_world\<lparr>headers_log := headers_log example_world @ [url example_stream]\<rparr>)"
    using filesize_cached_once [where s = example_stream and ext = example_externals
        and hs = "[(''content-length'', PStr ''5'')]" and v = "PStr ''5''" and n = 5
        and w = example_world] h1 h2 h3 h4
    by blast
  have w1: "example_world\<lparr>headers_log := headers_log example_world @ [url example_stream]\<rparr>
              = example_world\<lparr>headers_log := [url example_stream]\<rparr>"
    by (simp add: example_world_def)
  have later: "filesize example_externals (example_stream\<lparr>filesize_cache := Some 5\<rparr>)
       (example_world\<lparr>headers_log := [url example_stream]\<rparr>)
     = (Inr 5, example_stream\<lparr>filesize_cache := Some 5\<rparr>,
        example_world\<lparr>headers_log := [url example_stream]\<rparr>) \<and>
   fst (snd (stream_to_buffer example_externals example_monostate
       (example_stream\<lparr>filesize_cache := Some 5\<rparr>)
       (example_world\<lparr>headers_log := [url example_stream]\<rparr>)))
     = example_stream\<lparr>filesize_cache := Some 5\<rparr> \<and>
   headers_log (snd (snd (download example_externals example_monostate
       (example_stream\<lparr>filesize_cache := Some 5\<rparr>) None None None True
       (example_world\<lparr>headers_log := [url example_stream]\<rparr>))))
     = headers_log (example_world\<lparr>headers_log := [url example_stream]\<rparr>)"
    using filesize_cached_once [where s = "example_stream\<lparr>filesize_cache := Some 5\<rparr>"
        and ext = example_externals and n = 5 and m = example_monostate
        and w = "example_world\<lparr>headers_log := [url example_stream]\<rparr>"
        and output_path = None and filename = None and filename_prefix = None
        and skip_existing = True] h5
    by blast
  from first w1 later show ?thesis by simp
qed

section \<open>Properties of the manifest mutations\<close>







lemma marker_appended: "sublist ''signature='' (u @ ''&signature='' @ signature)"
proof -
  have "u @ ''&signature='' @ signature = (u @ ''&'') @ ''signature='' @ signature"
    by simp
  then show ?thesis
    unfolding sublist_def by blast
qed

lemma sign_stream_skips:
  "already_signed stream \<Longrightarrow> sign_stream get_signature js stream = Inr stream"
  by (auto simp: already_signed_def sign_stream_def split: sum.splits)

lemma sign_stream_signs:
  "sign_stream get_signature js stream = Inr stream' \<Longrightarrow> already_signed stream'"
proof (cases "already_signed stream")
  case True
  assume "sign_stream get_signature js stream = Inr stream'"
  with True sign_stream_skips [OF True, of get_signature js] show ?thesis by simp
next
  case False
  assume ok: "sign_stream get_signature js stream = Inr stream'"
  from ok obtain d where d: "stream = PDict d"
    by (cases stream) (auto simp: sign_stream_def)
  from ok d obtain u where u: "map_of d ''url'' = Some u"
    by (auto simp: sign_stream_def split: option.splits)
  from ok d u False obtain us where us: "u = PStr us"
    by (cases u) (auto simp: sign_stream_def already_signed_def and_then_def split: sum.splits)
  from ok d u us False obtain signature where
    "stream' = PDict (AList.update ''url'' (PStr (us @ ''&signature='' @ signature)) d)"
    by (auto simp: sign_stream_def already_signed_def and_then_def
        split: sum.splits option.splits if_splits)
  then show ?thesis
    using marker_appended [of us signature]
    by (simp add: already_signed_def AList.update_conv')
qed

lemma sign_streams_length:
  "sign_streams get_signature js streams = (streams', r) \<Longrightarrow> length streams' = length streams"
  by (induction streams arbitrary: streams' r) (auto split: sum.splits prod.splits)

lemma sign_streams_keeps_signed:
  "sign_streams get_signature js streams = (streams', r) \<Longrightarrow> i < length streams \<Longrightarrow>
   already_signed (streams ! i) \<Longrightarrow> streams' ! i = streams ! i"
proof (induction streams arbitrary: streams' r i)
  case Nil
  then show ?case by simp
next
  case (Cons x xs)
  show ?case
  proof (cases "sign_stream get_signature js x")
    case (Inl e)
    with Cons.prems show ?thesis by simp
  next
    case (Inr x')
    obtain ys r' where rest: "sign_streams get_signature js xs = (ys, r')"
      by (cases "sign_streams get_signature js xs") auto
    from Cons.prems(1) Inr rest have res: "streams' = x' # ys"
      by simp
    show ?thesis
    proof (cases i)
      case 0
      with Cons.prems(3) have "already_signed x" by simp
      from sign_stream_skips [OF this, of get_signature js] Inr have "x' = x" by simp
      with 0 res show ?thesis by simp
    next
      case (Suc j)
      with Cons.prems have "j < length xs" "already_signed (xs ! j)" by simp_all
      from Cons.IH [OF rest this] Suc res show ?thesis by simp
    qed
  qed
qed

lemma sign_streams_all_signed:
  "sign_streams get_signature js streams = (streams', None) \<Longrightarrow>
   \<forall>x \<in> set streams'. already_signed x"
proof (induction streams arbitrary: streams')
  case Nil
  then show ?case by simp
next
  case (Cons x xs)
  from Cons.prems obtain x' where x': "sign_stream get_signature js x = Inr x'"
    by (cases "sign_stream get_signature js x") auto
  obtain ys r' where rest: "sign_streams get_signature js xs = (ys, r')"
    by (cases "sign_streams get_signature js xs") auto
  from Cons.prems x' rest have res: "streams' = x' # ys" and r': "r' = None"
    by simp_all
  from Cons.IH [of ys] rest r' have "\<forall>x \<in> set ys. already_signed x" by simp
  with sign_stream_signs [OF x'] res show ?case by simp
qed

lemma sign_streams_noop:
  "\<forall>x \<in> set streams. already_signed x \<Longrightarrow>
   sign_streams get_signature js streams = (streams, None)"
  by (induction streams) (simp_all add: sign_stream_skips)



lemma sign_streams_append:
  "sign_streams get_signature js before = (before', None) \<Longrightarrow>
   sign_streams get_signature js (before @ rest)
     = (before' @ fst (sign_streams get_signature js rest),
        snd (sign_streams get_signature js rest))"
proof (induction before arbitrary: before')
  case Nil
  then show ?case by simp
next
  case (Cons x xs)
  from Cons.prems obtain x' where x': "sign_stream get_signature js x = Inr x'"
    by (cases "sign_stream get_signature js x") auto
  obtain ys r' where pre: "sign_streams get_signature js xs = (ys, r')"
    by (cases "sign_streams get_signature js xs") auto
  from Cons.prems x' pre have res: "before' = x' # ys" and r': "r' = None"
    by simp_all
  from Cons.IH [of ys] pre r' x' res show ?case by simp
qed

text \<open>
  Claim C5. An entry whose url already contains \<open>signature=\<close> is skipped: after
  \<open>apply_signature\<close> the manifest has as many entries as before and every such entry is
  unchanged. A manifest whose entries are all signed is left as it is, and after a run
  that completed, a second run (with any solver and script) changes nothing, so every url
  equals what the first run produced.
\<close>

theorem signature_resolution_idempotent:
  "(map_of config_args fmt = Some (PList streams) \<and>
    apply_signature get_signature config_args fmt js = (config_args', r) \<longrightarrow>
      (\<exists>streams'. map_of config_args' fmt = Some (PList streams') \<and>
         length streams' = length streams \<and>
         (\<forall>i<length streams. already_signed (streams ! i) \<longrightarrow> streams' ! i = streams ! i))) \<and>
   (map_of config_args fmt = Some (PList streams) \<and> (\<forall>x \<in> set streams. already_signed x) \<longrightarrow>
      apply_signature get_signature config_args fmt js = (config_args, None)) \<and>
   (apply_signature get_signature config_args fmt js = (config_args', None) \<longrightarrow>
      apply_signature other_solver config_args' fmt js' = (config_args', None))"
proof -
  have entries: "map_of config_args fmt = Some (PList streams) \<and>
    apply_signature get_signature config_args fmt js = (config_args', r) \<longrightarrow>
      (\<exists>streams'. map_of config_args' fmt = Some (PList streams') \<and>
         length streams' = length streams \<and>
         (\<forall>i<length streams. already_signed (streams ! i) \<longrightarrow> streams' ! i = streams ! i))"
  proof
    assume h: "map_of config_args fmt = Some (PList streams) \<and>
      apply_signature get_signature config_args fmt js = (config_args', r)"
    obtain ys r' where run: "sign_streams get_signature js streams = (ys, r')"
      by (cases "sign_streams get_signature js streams") auto
    with h have "config_args' = AList.update fmt (PList ys) config_args"
      by (auto simp: apply_signature_def)
    then have "map_of config_args' fmt = Some (PList ys)"
      by (simp add: AList.update_conv')
    with sign_streams_length [OF run] sign_streams_keeps_signed [OF run]
    show "\<exists>streams'. map_of config_args' fmt = Some (PList streams') \<and>
         length streams' = length streams \<and>
         (\<forall>i<length streams. already_signed (streams ! i) \<longrightarrow> streams' ! i = streams ! i)"
      by blast
  qed
  have signed: "map_of config_args fmt = Some (PList streams) \<and>
      (\<forall>x \<in> set streams. already_signed x) \<longrightarrow>
      apply_signature get_signature config_args fmt js = (config_args, None)"
    by (auto simp: apply_signature_def sign_streams_noop AList.update_triv)
  have twice: "apply_signature get_signature config_args fmt js = (config_args', None) \<longrightarrow>
      apply_signature other_solver config_args' fmt js' = (config_args', None)"
  proof
    assume run: "apply_signature get_signature config_args fmt js = (config_args', None)"
    then obtain v where v: "map_of config_args fmt = Some v"
      by (cases "map_of config_args fmt") (auto simp: apply_signature_def)
    show "apply_signature other_solver config_args' fmt js' = (config_args', None)"
    proof (cases v)
      case (PList xs)
      obtain ys r' where first: "sign_streams get_signature js xs = (ys, r')"
        by (cases "sign_streams get_signature js xs") auto
      with run v PList have c': "config_args' = AList.update fmt (PList ys) config_args"
        and r': "r' = None"
        by (auto simp: apply_signature_def)
      from sign_streams_all_signed [of get_signature js xs ys] first r'
      have "\<forall>x \<in> set ys. already_signed x" by simp
      then have again: "sign_streams other_solver js' ys = (ys, None)"
        by (rule sign_streams_noop)
      have look: "map_of config_args' fmt = Some (PList ys)"
        by (simp add: c' AList.update_conv')
      from AList.update_triv [OF look] look again show ?thesis
        by (simp add: apply_signature_def)
    next
      case (PStr cs)
      with run v show ?thesis
        by (auto simp: apply_signature_def split: if_splits)
    next
      case (PDict d)
      with run v show ?thesis
        by (auto simp: apply_signature_def split: if_splits)
    qed (use run v in \<open>auto simp: apply_signature_def\<close>)
  qed
  from entries signed twice show ?thesis by blast
qed

theorem signature_resolution_idempotent_witness:
  "apply_signature reversing_solver
     [(''fmt'', PList [presigned_entry, unsigned_entry ''18''])] ''fmt'' ''js''
     = ([(''fmt'', PList [presigned_entry, signed_entry ''18''])], None) \<and>
   apply_signature failing_solver
     [(''fmt'', PList [presigned_entry, signed_entry ''18''])] ''fmt'' ''other js''
     = ([(''fmt'', PList [presigned_entry, signed_entry ''18''])], None) \<and>
   already_signed presigned_entry \<and>
   apply_signature failing_solver [(''fmt'', PList [presigned_entry])] ''fmt'' ''js''
     = ([(''fmt'', PList [presigned_entry])], None)"
proof -
  have first: "apply_signature reversing_solver
     [(''fmt'', PList [presigned_entry, unsigned_entry ''18''])] ''fmt'' ''js''
     = ([(''fmt'', PList [presigned_entry, signed_entry ''18''])], None)"
    by code_simp
  have pre: "already_signed presigned_entry"
    by code_simp
  have look: "map_of [(''fmt'', PList [presigned_entry])] ''fmt'' = Some (PList [presigned_entry])"
    by simp
  from signature_resolution_idempotent
    [where config_args = "[(''fmt'', PList [presigned_entry, unsigned_entry ''18''])]"
       and fmt = "''fmt''" and get_signature = reversing_solver and js = "''js''"
       and config_args' = "[(''fmt'', PList [presigned_entry, signed_entry ''18''])]"
       and other_solver = failing_solver and js' = "''other js''"] first
  have second: "apply_signature failing_solver
     [(''fmt'', PList [presigned_entry, signed_entry ''18''])] ''fmt'' ''other js''
     = ([(''fmt'', PList [presigned_entry, signed_entry ''18''])], None)"
    by blast
  from signature_resolution_idempotent
    [where config_args = "[(''fmt'', PList [presigned_entry])]" and fmt = "''fmt''"
       and streams = "[presigned_entry]" and get_signature = failing_solver and js = "''js''"]
    look pre
  have third: "apply_signature failing_solver [(''fmt'', PList [presigned_entry])] ''fmt'' ''js''
     = ([(''fmt'', PList [presigned_entry])], None)"
    by simp
  from first second pre third show ?thesis by blast
qed

text \<open>
  Claim C3, as amended. When the loop reaches an entry whose url does not contain the
  marker and the solver fails on its token, \<open>apply_signature\<close> ends with exactly the
  solver's error: the failure is neither swallowed nor skipped. The entries before it stay
  signed, the failing entry and the entries after it are untouched. The error is the one
  the solver produced from the script and the token; nothing is added to it.
\<close>

theorem solver_failure_propagates:
  assumes "map_of config_args fmt = Some (PList (before @ stream # after))"
    and "sign_streams get_signature js before = (before', None)"
    and "subscript stream ''url'' = Inr u"
    and "contains ''signature='' u = Inr False"
    and "subscript stream ''s'' = Inr s"
    and "get_signature js s = Inl e"
  shows "apply_signature get_signature config_args fmt js
           = (AList.update fmt (PList (before' @ stream # after)) config_args, Some e)"
proof -
  have "sign_stream get_signature js stream = Inl e"
    using assms(3-6) by (simp add: sign_stream_def)
  then have "sign_streams get_signature js (stream # after) = (stream # after, Some e)"
    by simp
  with sign_streams_append [OF assms(2), of "stream # after"]
  have "sign_streams get_signature js (before @ stream # after)
          = (before' @ stream # after, Some e)"
    by simp
  with assms(1) show ?thesis
    by (simp add: apply_signature_def)
qed



theorem solver_failure_propagates_witness:
  "apply_signature failing_solver
     [(''fmt'', PList [presigned_entry, unsigned_entry ''18'', unsigned_entry ''22''])]
     ''fmt'' ''js''
   = ([(''fmt'', PList [presigned_entry, unsigned_entry ''18'', unsigned_entry ''22''])],
      Some (ExternalError ''RegexMatchError''))"
proof -
  have h1: "map_of [(''fmt'', PList [presigned_entry, unsigned_entry ''18'', unsigned_entry ''22''])]
      ''fmt'' = Some (PList ([presigned_entry] @ unsigned_entry ''18'' # [unsigned_entry ''22'']))"
    by simp
  have h2: "sign_streams failing_solver ''js'' [presigned_entry] = ([presigned_entry], None)"
    by code_simp
  have h3: "subscript (unsigned_entry ''18'') ''url'' = Inr (PStr ''https://host/v?id=1'')"
    by (simp add: unsigned_entry_def)
  have h4: "contains ''signature='' (PStr ''https://host/v?id=1'') = Inr False"
    by code_simp
  have h5: "subscript (unsigned_entry ''18'') ''s'' = Inr (PStr ''ABC'')"
    by (simp add: unsigned_entry_def)
  have h6: "failing_solver ''js'' (PStr ''ABC'') = Inl (ExternalError ''RegexMatchError'')"
    by (simp add: failing_solver_def)
  from solver_failure_propagates [OF h1 h2 h3 h4 h5 h6] show ?thesis by simp
qed

text \<open>
  The propagated error does not identify the itag: two manifests that differ only in the
  itag of the failing entry end with the same error.
\<close>

theorem solver_failure_counterexample:
  "snd (apply_signature failing_solver [(''fmt'', PList [unsigned_entry ''18''])] ''fmt'' ''js'')
     = Some (ExternalError ''RegexMatchError'') \<and>
   snd (apply_signature failing_solver [(''fmt'', PList [unsigned_entry ''22''])] ''fmt'' ''js'')
     = Some (ExternalError ''RegexMatchError'')"
  by code_simp

section \<open>The transfer loop\<close>

lemma progress_events_Nil: "progress_events registered T [] = []"
  by (simp add: progress_events_def)

lemma remaining_after_shift:
  "remaining_after T (c # cs) (Suc i) = remaining_after (T - int (length c)) cs i"
  by (simp add: remaining_after_def)

lemma progress_events_Cons:
  "progress_events registered T (c # cs)
     = Written c # (if registered then [ProgressCall c (T - int (length c))] else [])
       @ progress_events registered (T - int (length c)) cs"
  unfolding progress_events_def
  by (simp add: map_upt_Suc remaining_after_shift del: upt_Suc) (simp add: remaining_after_def)

lemma user_after_progress_Nil: "user_after_progress m s sink written T [] u = u"
  by (simp add: user_after_progress_def)

lemma user_after_progress_Cons:
  "user_after_progress m s sink written T (c # cs) u
     = user_after_progress m s sink (written @ c) (T - int (length c)) cs
         (case on_progress_callback m of
            None \<Rightarrow> u
          | Some cb \<Rightarrow> fst (cb s c (sink (written @ c)) (T - int (length c)) u))"
proof -
  have "[0..<Suc (length cs)] = 0 # [Suc 0..<Suc (length cs)]"
    by (rule upt_conv_Cons) simp
  then have range: "[0..<length (c # cs)] = 0 # map Suc [0..<length cs]"
    by (simp only: map_Suc_upt list.size(4) One_nat_def add_Suc_right add_0_right)
  have first: "remaining_after r cs 0 = r" for r
    by (simp add: remaining_after_def)
  show ?thesis
  proof (cases "on_progress_callback m")
    case None
    then show ?thesis
      unfolding user_after_progress_def range
      by (simp add: foldl_map del: upt_Suc)
  next
    case (Some cb)
    then show ?thesis
      unfolding user_after_progress_def range
      by (simp add: foldl_map remaining_after_shift first del: upt_Suc)
  qed
qed

lemma filesize_keeps:
  "filesize ext s w = (r, s', w') \<Longrightarrow>
   url s' = url s \<and> files w' = files w \<and> trace w' = trace w \<and>
   stream_log w' = stream_log w \<and> user w' = user w"
  by (auto simp: filesize_def Let_def split: option.splits sum.splits)

lemma on_progress_returns:
  assumes "callbacks_return m"
    and "handler_write ext fh c = Inr fh'"
  shows "\<exists>w'. on_progress ext m s c fh r w = (None, fh', w') \<and>
           trace w' = trace w @ Written c #
             (if on_progress_callback m \<noteq> None then [ProgressCall c r] else []) \<and>
           user w' = (case on_progress_callback m of
                        None \<Rightarrow> user w
                      | Some cb \<Rightarrow> fst (cb s c fh' r (user w))) \<and>
           files w' = files w \<and> stream_log w' = stream_log w \<and> headers_log w' = headers_log w"
proof (cases "on_progress_callback m")
  case None
  then show ?thesis by (simp add: on_progress_def assms(2))
next
  case (Some cb)
  obtain u e where call: "cb s c fh' r (user w) = (u, e)"
    by (cases "cb s c fh' r (user w)") auto
  from assms(1) Some have "snd (cb s c fh' r (user w)) = None"
    by (simp add: callbacks_return_def)
  with call have "e = None" by simp
  with call show ?thesis
    by (simp add: on_progress_def assms(2) Some Let_def)
qed

lemma transfer_returns:
  assumes normal: "callbacks_return m"
    and writes: "\<forall>i<length cs. handler_write ext (sink (written @ concat (take i cs))) (cs ! i)
                   = Inr (sink (written @ concat (take (Suc i) cs)))"
  shows "\<exists>w'. transfer ext m s cs r (sink written) w
             = (None, r - int (sum_list (map length cs)), sink (written @ concat cs), w') \<and>
           trace w' = trace w @ progress_events (on_progress_callback m \<noteq> None) r cs \<and>
           user w' = user_after_progress m s sink written r cs (user w) \<and>
           files w' = files w \<and> stream_log w' = stream_log w \<and> headers_log w' = headers_log w"
  using writes
proof (induction cs arbitrary: r written w)
  case Nil
  show ?case by (simp add: progress_events_Nil user_after_progress_Nil)
next
  case (Cons c cs)
  from Cons.prems have head: "handler_write ext (sink written) c = Inr (sink (written @ c))"
    by fastforce
  have tail: "\<forall>i<length cs. handler_write ext (sink ((written @ c) @ concat (take i cs))) (cs ! i)
                = Inr (sink ((written @ c) @ concat (take (Suc i) cs)))"
  proof (intro allI impI)
    fix i assume "i < length cs"
    then have "Suc i < length (c # cs)" by simp
    with Cons.prems have "handler_write ext (sink (written @ concat (take (Suc i) (c # cs))))
        ((c # cs) ! Suc i) = Inr (sink (written @ concat (take (Suc (Suc i)) (c # cs))))"
      by blast
    then show "handler_write ext (sink ((written @ c) @ concat (take i cs))) (cs ! i)
                = Inr (sink ((written @ c) @ concat (take (Suc i) cs)))"
      by simp
  qed
  from on_progress_returns [OF normal head, of s "r - int (length c)" w]
  obtain w1 where step: "on_progress ext m s c (sink written) (r - int (length c)) w
                           = (None, sink (written @ c), w1)"
    and t1: "trace w1 = trace w @ Written c #
             (if on_progress_callback m \<noteq> None then [ProgressCall c (r - int (length c))] else [])"
    and u1: "user w1 = (case on_progress_callback m of
                          None \<Rightarrow> user w
                        | Some cb \<Rightarrow> fst (cb s c (sink (written @ c)) (r - int (length c)) (user w)))"
    and k1: "files w1 = files w" "stream_log w1 = stream_log w" "headers_log w1 = headers_log w"
    by blast
  from Cons.IH [OF tail, of "r - int (length c)" w1]
  obtain w2 where rest: "transfer ext m s cs (r - int (length c)) (sink (written @ c)) w1
             = (None, r - int (length c) - int (sum_list (map length cs)),
                sink ((written @ c) @ concat cs), w2)"
    and t2: "trace w2 = trace w1 @ progress_events (on_progress_callback m \<noteq> None)
               (r - int (length c)) cs"
    and u2: "user w2 = user_after_progress m s sink (written @ c) (r - int (length c)) cs (user w1)"
    and k2: "files w2 = files w1" "stream_log w2 = stream_log w1" "headers_log w2 = headers_log w1"
    by blast
  have "transfer ext m s (c # cs) r (sink written) w
          = (None, r - int (sum_list (map length (c # cs))), sink (written @ concat (c # cs)), w2)"
    using step rest by (simp add: Let_def algebra_simps)
  moreover have "trace w2 = trace w @ progress_events (on_progress_callback m \<noteq> None) r (c # cs)"
    using t1 t2 by (simp add: progress_events_Cons)
  moreover have "user w2 = user_after_progress m s sink written r (c # cs) (user w)"
    using u1 u2 by (simp add: user_after_progress_Cons)
  ultimately show ?case using k1 k2 by simp
qed

lemma on_complete_returns:
  assumes "callbacks_return m"
  shows "\<exists>w'. on_complete m s fh w = (None, w') \<and>
           trace w' = trace w @ (if on_complete_callback m \<noteq> None then [CompleteCall] else []) \<and>
           user w' = user_after_complete m s fh (user w) \<and>
           files w' = files w \<and> stream_log w' = stream_log w \<and> headers_log w' = headers_log w"
proof (cases "on_complete_callback m")
  case None
  then show ?thesis by (simp add: on_complete_def user_after_complete_def)
next
  case (Some cb)
  obtain u e where call: "cb s fh (user w) = (u, e)"
    by (cases "cb s fh (user w)") auto
  from assms Some have "snd (cb s fh (user w)) = None"
    by (simp add: callbacks_return_def)
  with call have "e = None" by simp
  with call show ?thesis
    by (simp add: on_complete_def user_after_complete_def Some Let_def)
qed

lemma buffer_writes:
  "\<forall>i<length cs. handler_write ext (BytesIO (written @ concat (take i cs))) (cs ! i)
     = Inr (BytesIO (written @ concat (take (Suc i) cs)))"
  by (simp add: take_Suc_conv_app_nth)

lemma file_writes:
  "writes_accepted ext file_path cs \<Longrightarrow>
   \<forall>i<length cs. handler_write ext (FileHandle file_path ([] @ concat (take i cs))) (cs ! i)
     = Inr (FileHandle file_path ([] @ concat (take (Suc i) cs)))"
  by (simp add: writes_accepted_def take_Suc_conv_app_nth)

lemma stream_to_buffer_run:
  assumes size: "filesize ext s w = (Inr T, s1, w1)"
    and chunks: "request_stream ext (url s) = (cs, None)"
    and normal: "callbacks_return m"
  shows "\<exists>w'. stream_to_buffer ext m s w = (Inr (BytesIO (concat cs)), s1, w') \<and>
           trace w' = trace w @ progress_events (on_progress_callback m \<noteq> None) T cs
                        @ (if on_complete_callback m \<noteq> None then [CompleteCall] else []) \<and>
           user w' = user_after_complete m s1 (BytesIO (concat cs))
                       (user_after_progress m s1 BytesIO [] T cs (user w)) \<and>
           stream_log w' = stream_log w @ [url s] \<and> files w' = files w"
proof -
  note keep = filesize_keeps [OF size]
  have again: "filesize ext s1 w1 = (Inr T, s1, w1)"
    by (rule filesize_hit [OF filesize_result [OF size]])
  let ?w3 = "w1\<lparr>stream_log := stream_log w1 @ [url s1]\<rparr>"
  from transfer_returns [OF normal buffer_writes [of cs ext "[]"], of s1 T ?w3]
  obtain w4 where loop: "transfer ext m s1 cs T (BytesIO []) ?w3
             = (None, T - int (sum_list (map length cs)), BytesIO (concat cs), w4)"
    and t4: "trace w4 = trace ?w3 @ progress_events (on_progress_callback m \<noteq> None) T cs"
    and u4: "user w4 = user_after_progress m s1 BytesIO [] T cs (user ?w3)"
    and k4: "files w4 = files ?w3" "stream_log w4 = stream_log ?w3"
    by auto
  from on_complete_returns [OF normal, of s1 "BytesIO (concat cs)" w4]
  obtain w5 where finish: "on_complete m s1 (BytesIO (concat cs)) w4 = (None, w5)"
    and t5: "trace w5 = trace w4 @ (if on_complete_callback m \<noteq> None then [CompleteCall] else [])"
    and u5: "user w5 = user_after_complete m s1 (BytesIO (concat cs)) (user w4)"
    and k5: "files w5 = files w4" "stream_log w5 = stream_log w4"
    by blast
  have "stream_to_buffer ext m s w = (Inr (BytesIO (concat cs)), s1, w5)"
    using size again chunks keep loop finish by (simp add: stream_to_buffer_def)
  with t4 t5 u4 u5 k4 k5 keep show ?thesis by simp
qed

lemma download_transfer_run:
  assumes size: "filesize ext s w = (Inr T, s1, w1)"
    and chunks: "request_stream ext (url s) = (cs, None)"
    and normal: "callbacks_return m"
    and accepted: "writes_accepted ext file_path cs"
  shows "\<exists>w'. download_transfer ext m s file_path w = (Inr file_path, s1, w') \<and>
           trace w' = trace w @ progress_events (on_progress_callback m \<noteq> None) T cs
                        @ (if on_complete_callback m \<noteq> None then [CompleteCall] else []) \<and>
           user w' = user_after_complete m s1 (FileHandle file_path (concat cs))
                       (user_after_progress m s1 (FileHandle file_path) [] T cs (user w)) \<and>
           stream_log w' = stream_log w @ [url s] \<and>
           map_of (files w') = (map_of (files w))(file_path \<mapsto> concat cs)"
proof -
  note keep = filesize_keeps [OF size]
  have again: "filesize ext s1 w1 = (Inr T, s1, w1)"
    by (rule filesize_hit [OF filesize_result [OF size]])
  have opened: "open_wb ext file_path = None"
    using accepted by (simp add: writes_accepted_def)
  let ?w4 = "w1\<lparr>files := AList.update file_path [] (files w1),
                 stream_log := stream_log w1 @ [url s1]\<rparr>"
  from transfer_returns [OF normal file_writes [OF accepted], of s1 T ?w4]
  obtain w5 where loop: "transfer ext m s1 cs T (FileHandle file_path []) ?w4
             = (None, T - int (sum_list (map length cs)), FileHandle file_path (concat cs), w5)"
    and t5: "trace w5 = trace ?w4 @ progress_events (on_progress_callback m \<noteq> None) T cs"
    and u5: "user w5 = user_after_progress m s1 (FileHandle file_path) [] T cs (user ?w4)"
    and k5: "files w5 = files ?w4" "stream_log w5 = stream_log ?w4"
    by auto
  let ?w6 = "w5\<lparr>files := AList.update file_path (concat cs) (files w5)\<rparr>"
  from on_complete_returns [OF normal, of s1 "FileHandle file_path (concat cs)" ?w6]
  obtain w7 where finish: "on_complete m s1 (FileHandle file_path (concat cs)) ?w6 = (None, w7)"
    and t7: "trace w7 = trace ?w6 @ (if on_complete_callback m \<noteq> None then [CompleteCall] else [])"
    and u7: "user w7 = user_after_complete m s1 (FileHandle file_path (concat cs)) (user ?w6)"
    and k7: "files w7 = files ?w6" "stream_log w7 = stream_log ?w6"
    by blast
  have "download_transfer ext m s file_path w = (Inr file_path, s1, w7)"
    using size again chunks keep loop finish opened by (simp add: download_transfer_def)
  moreover have "map_of (files w7) = (map_of (files w))(file_path \<mapsto> concat cs)"
    using k5 k7 keep by (simp add: AList.update_conv')
  ultimately show ?thesis using t5 t7 u5 u7 k5 k7 keep by simp
qed

lemma skip_condition_false:
  assumes size: "filesize ext s w = (Inr T, s1, w1)"
    and differs: "\<not> (skip_existing \<and>
        (\<exists>content. map_of (files w) file_path = Some content \<and> int (length content) = T))"
  shows "skip_condition ext s file_path skip_existing w = (Inr False, s, w) \<or>
         skip_condition ext s file_path skip_existing w = (Inr False, s1, w1)"
  using size differs
  by (auto simp: skip_condition_def split: option.splits)

text \<open>
  The failures of the filesystem reach the caller: a refused \<open>open\<close> ends
  \<open>download\<close> before any chunk is requested, and a refused write ends the loop before
  the callback of that chunk.
\<close>

lemma download_transfer_open_refused:
  "filesize ext s w = (Inr T, s1, w1) \<Longrightarrow> open_wb ext file_path = Some e \<Longrightarrow>
   download_transfer ext m s file_path w = (Inl e, s1, w1)"
  by (simp add: download_transfer_def filesize_hit [OF filesize_result])

lemma on_progress_write_refused:
  "handler_write ext fh c = Inl e \<Longrightarrow> on_progress ext m s c fh r w = (Some e, fh, w)"
  by (simp add: on_progress_def)

text \<open>
  Claim C1. Let the remote content-length of a descriptor be \<open>T\<close>, let the transport
  yield the chunks \<open>c1..cn\<close> with total length \<open>T\<close>, and let the registered callbacks
  return normally. Then \<open>stream_to_buffer\<close>, and \<open>download\<close> when it does not return
  early for an existing file of size \<open>T\<close> and the filesystem accepts the \<open>open\<close> and the
  writes, write the chunks to the sink in order (the sink ends up holding their
  concatenation); after chunk \<open>i\<close> the counter is \<open>T\<close> minus the lengths of \<open>c1..ci\<close>;
  the progress callback, if registered, is invoked once per chunk, after the write of that
  chunk, with the stream, the chunk, the sink and that value, so that the user state at
  the end is the result of these calls in order; the counter is 0 after the last chunk;
  and the completion callback, if registered, is invoked exactly once, after the last
  chunk, on the state the progress calls left.
\<close>

theorem progress_accounting:
  assumes size: "filesize ext s w = (Inr T, s1, w1)"
    and chunks: "request_stream ext (url s) = (cs, None)"
    and total: "int (sum_list (map length cs)) = T"
    and normal: "callbacks_return m"
  shows
  "(\<exists>w'. stream_to_buffer ext m s w = (Inr (BytesIO (concat cs)), s1, w') \<and>
      trace w' = trace w @ progress_events (on_progress_callback m \<noteq> None) T cs
                   @ (if on_complete_callback m \<noteq> None then [CompleteCall] else []) \<and>
      user w' = user_after_complete m s1 (BytesIO (concat cs))
                  (user_after_progress m s1 BytesIO [] T cs (user w))) \<and>
   (target_path ext s output_path filename filename_prefix = Inr file_path \<and>
    \<not> (skip_existing \<and>
       (\<exists>content. map_of (files w) file_path = Some content \<and> int (length content) = T)) \<and>
    writes_accepted ext file_path cs \<longrightarrow>
      (\<exists>w'. download ext m s output_path filename filename_prefix skip_existing w
               = (Inr file_path, s1, w') \<and>
         map_of (files w') file_path = Some (concat cs) \<and>
         trace w' = trace w @ progress_events (on_progress_callback m \<noteq> None) T cs
                      @ (if on_complete_callback m \<noteq> None then [CompleteCall] else []) \<and>
         user w' = user_after_complete m s1 (FileHandle file_path (concat cs))
                     (user_after_progress m s1 (FileHandle file_path) [] T cs (user w)) \<and>
         (\<forall>i\<le>length cs. \<forall>w0.
            fst (snd (transfer ext m s1 (take i cs) T (FileHandle file_path []) w0))
              = remaining_after T cs i))) \<and>
   (\<forall>i\<le>length cs. \<forall>w0.
      fst (snd (transfer ext m s1 (take i cs) T (BytesIO []) w0)) = remaining_after T cs i) \<and>
   remaining_after T cs (length cs) = 0"
proof -
  from stream_to_buffer_run [OF size chunks normal]
  have buffer: "\<exists>w'. stream_to_buffer ext m s w = (Inr (BytesIO (concat cs)), s1, w') \<and>
      trace w' = trace w @ progress_events (on_progress_callback m \<noteq> None) T cs
                   @ (if on_complete_callback m \<noteq> None then [CompleteCall] else []) \<and>
      user w' = user_after_complete m s1 (BytesIO (concat cs))
                  (user_after_progress m s1 BytesIO [] T cs (user w))"
    by blast
  have to_file: "target_path ext s output_path filename filename_prefix = Inr file_path \<and>
    \<not> (skip_existing \<and>
       (\<exists>content. map_of (files w) file_path = Some content \<and> int (length content) = T)) \<and>
    writes_accepted ext file_path cs \<longrightarrow>
      (\<exists>w'. download ext m s output_path filename filename_prefix skip_existing w
               = (Inr file_path, s1, w') \<and>
         map_of (files w') file_path = Some (concat cs) \<and>
         trace w' = trace w @ progress_events (on_progress_callback m \<noteq> None) T cs
                      @ (if on_complete_callback m \<noteq> None then [CompleteCall] else []) \<and>
         user w' = user_after_complete m s1 (FileHandle file_path (concat cs))
                     (user_after_progress m s1 (FileHandle file_path) [] T cs (user w)) \<and>
         (\<forall>i\<le>length cs. \<forall>w0.
            fst (snd (transfer ext m s1 (take i cs) T (FileHandle file_path []) w0))
              = remaining_after T cs i))"
  proof
    assume h: "target_path ext s output_path filename filename_prefix = Inr file_path \<and>
      \<not> (skip_existing \<and>
        (\<exists>content. map_of (files w) file_path = Some content \<and> int (length content) = T)) \<and>
      writes_accepted ext file_path cs"
    then have path: "target_path ext s output_path filename filename_prefix = Inr file_path"
      and differs: "\<not> (skip_existing \<and>
        (\<exists>content. map_of (files w) file_path = Some content \<and> int (length content) = T))"
      and accepted: "writes_accepted ext file_path cs"
      by simp_all
    note keep = filesize_keeps [OF size]
    have again: "filesize ext s1 w1 = (Inr T, s1, w1)"
      by (rule filesize_hit [OF filesize_result [OF size]])
    have file_counter: "\<forall>i\<le>length cs. \<forall>w0.
        fst (snd (transfer ext m s1 (take i cs) T (FileHandle file_path []) w0))
          = remaining_after T cs i"
    proof (intro allI impI)
      fix i and w0 :: "'a world"
      assume i: "i \<le> length cs"
      have "writes_accepted ext file_path (take i cs)"
        using accepted i by (auto simp: writes_accepted_def)
      from transfer_returns [OF normal file_writes [OF this], of s1 T w0]
      obtain w' where "transfer ext m s1 (take i cs) T (FileHandle file_path []) w0
         = (None, T - int (sum_list (map length (take i cs))),
            FileHandle file_path ([] @ concat (take i cs)), w')"
        by auto
      then show "fst (snd (transfer ext m s1 (take i cs) T (FileHandle file_path []) w0))
                   = remaining_after T cs i"
        by (simp add: remaining_after_def)
    qed
    from skip_condition_false [OF size differs]
    consider (untouched) "skip_condition ext s file_path skip_existing w = (Inr False, s, w)"
      | (read) "skip_condition ext s file_path skip_existing w = (Inr False, s1, w1)"
      by blast
    then have "\<exists>w'. download ext m s output_path filename filename_prefix skip_existing w
               = (Inr file_path, s1, w') \<and>
         map_of (files w') file_path = Some (concat cs) \<and>
         trace w' = trace w @ progress_events (on_progress_callback m \<noteq> None) T cs
                      @ (if on_complete_callback m \<noteq> None then [CompleteCall] else []) \<and>
         user w' = user_after_complete m s1 (FileHandle file_path (concat cs))
                     (user_after_progress m s1 (FileHandle file_path) [] T cs (user w))"
    proof cases
      case untouched
      from download_transfer_run [OF size chunks normal accepted]
      show ?thesis
        using path untouched by (auto simp: download_def)
    next
      case read
      have chunks1: "request_stream ext (url s1) = (cs, None)"
        using chunks keep by simp
      from download_transfer_run [OF again chunks1 normal accepted]
      show ?thesis
        using path read keep by (auto simp: download_def)
    qed
    with file_counter
    show "\<exists>w'. download ext m s output_path filename filename_prefix skip_existing w
               = (Inr file_path, s1, w') \<and>
         map_of (files w') file_path = Some (concat cs) \<and>
         trace w' = trace w @ progress_events (on_progress_callback m \<noteq> None) T cs
                      @ (if on_complete_callback m \<noteq> None then [CompleteCall] else []) \<and>
         user w' = user_after_complete m s1 (FileHandle file_path (concat cs))
                     (user_after_progress m s1 (FileHandle file_path) [] T cs (user w)) \<and>
         (\<forall>i\<le>length cs. \<forall>w0.
            fst (snd (transfer ext m s1 (take i cs) T (FileHandle file_path []) w0))
              = remaining_after T cs i)"
      by blast
  qed
  have counter: "\<forall>i\<le>length cs. \<forall>w0.
      fst (snd (transfer ext m s1 (take i cs) T (BytesIO []) w0)) = remaining_after T cs i"
  proof (intro allI impI)
    fix i and w0 :: "'a world"
    assume "i \<le> length cs"
    from transfer_returns [OF normal buffer_writes [of "take i cs" ext "[]"], of s1 T w0]
    obtain w' where "transfer ext m s1 (take i cs) T (BytesIO []) w0
       = (None, T - int (sum_list (map length (take i cs))),
          BytesIO ([] @ concat (take i cs)), w')"
      by auto
    then show "fst (snd (transfer ext m s1 (take i cs) T (BytesIO []) w0)) = remaining_after T cs i"
      by (simp add: remaining_after_def)
  qed
  have final: "remaining_after T cs (length cs) = 0"
    using total by (simp add: remaining_after_def)
  from buffer to_file counter final show ?thesis by blast
qed

lemma example_filesize:
  "filesize example_externals example_stream (w :: nat world)
     = (Inr 5, example_stream\<lparr>filesize_cache := Some 5\<rparr>,
        w\<lparr>headers_log := headers_log w @ [url example_stream]\<rparr>)"
  by (rule filesize_first [where hs = "[(''content-length'', PStr ''5'')]" and v = "PStr ''5''"])
     (simp_all add: example_stream_def example_externals_def example_int_def)

lemma example_target_path:
  "target_path example_externals example_stream None None None = Inr ''/cwd/My Video.mp4''"
  by (simp add: target_path_def default_filename_def title_def example_stream_def
      example_externals_def)

lemma example_callbacks_return: "callbacks_return example_monostate"
  by (simp add: callbacks_return_def example_monostate_def)

lemma example_writes_accepted:
  "writes_accepted example_externals ''/cwd/My Video.mp4'' [''abc'', ''de'']"
  by (simp add: writes_accepted_def example_externals_def sublist_code less_Suc_eq)

lemma example_progress_events:
  "progress_events True 5 [''abc'', ''de'']
     = [Written ''abc'', ProgressCall ''abc'' 2, Written ''de'', ProgressCall ''de'' 0]"
  by (simp add: progress_events_Cons progress_events_Nil)

lemma example_user:
  "user_after_complete example_monostate s fh
     (user_after_progress example_monostate s sink [] 5 [''abc'', ''de''] 0) = 1005"
  by (simp add: user_after_complete_def user_after_progress_Cons user_after_progress_Nil
      example_monostate_def)

theorem progress_accounting_witness:
  "fst (stream_to_buffer example_externals example_monostate example_stream example_world)
     = Inr (BytesIO ''abcde'') \<and>
   trace (snd (snd (stream_to_buffer example_externals example_monostate example_stream
       example_world)))
     = [Written ''abc'', ProgressCall ''abc'' 2, Written ''de'', ProgressCall ''de'' 0,
        CompleteCall] \<and>
   user (snd (snd (stream_to_buffer example_externals example_monostate example_stream
       example_world))) = 1005 \<and>
   fst (download example_externals example_monostate example_stream None None None True
       example_world)
     = Inr ''/cwd/My Video.mp4'' \<and>
   map_of (files (snd (snd (download example_externals example_monostate example_stream
       None None None True example_world)))) ''/cwd/My Video.mp4''
     = Some ''abcde'' \<and>
   trace (snd (snd (download example_externals example_monostate example_stream None None None
       True example_world)))
     = [Written ''abc'', ProgressCall ''abc'' 2, Written ''de'', ProgressCall ''de'' 0,
        CompleteCall] \<and>
   user (snd (snd (download example_externals example_monostate example_stream None None None
       True example_world))) = 1005 \<and>
   remaining_after 5 [''abc'', ''de''] (length [''abc'', ''de'']) = 0"
proof -
  have chunks: "request_stream example_externals (url example_stream) = ([''abc'', ''de''], None)"
    by (simp add: example_externals_def)
  have total: "int (sum_list (map length [''abc'', ''de''])) = 5"
    by simp
  have registered: "on_progress_callback example_monostate \<noteq> None"
    "on_complete_callback example_monostate \<noteq> None"
    by (simp_all add: example_monostate_def)
  have absent: "\<not> (True \<and> (\<exists>content. map_of (files example_world) ''/cwd/My Video.mp4''
      = Some content \<and> int (length content) = 5))"
    by (simp add: example_world_def)
  have start: "trace example_world = []" "user example_world = 0"
    by (simp_all add: example_world_def)
  from progress_accounting [OF example_filesize chunks total example_callbacks_return,
      of example_world None None None "''/cwd/My Video.mp4''" True]
    example_target_path absent example_writes_accepted registered example_progress_events
    example_user start
  show ?thesis by auto
qed

section \<open>Skipping an existing file\<close>

lemma filesize_world:
  "filesize ext s w = (r, s', w') \<Longrightarrow>
   w' = w \<or> w' = w\<lparr>headers_log := headers_log w @ [url s]\<rparr>"
  by (auto simp: filesize_def Let_def split: option.splits sum.splits)

text \<open>
  Claim C2. With \<open>skip_existing\<close> set, if a file exists at the resolved target path
  and its size equals the remote content-length, \<open>download\<close> returns that path at once:
  the files are as before, no chunk stream was requested from the transport, no write and
  no callback took place, and the user state is unchanged. The only possible effect is the
  headers request that reads the content-length.
\<close>

theorem skip_existing_returns_early:
  assumes "target_path ext s output_path filename filename_prefix = Inr file_path"
    and "map_of (files w) file_path = Some content"
    and "filesize ext s w = (Inr T, s1, w1)"
    and "int (length content) = T"
  shows "download ext m s output_path filename filename_prefix True w = (Inr file_path, s1, w1) \<and>
         files w1 = files w \<and> stream_log w1 = stream_log w \<and> trace w1 = trace w \<and>
         user w1 = user w \<and>
         (w1 = w \<or> w1 = w\<lparr>headers_log := headers_log w @ [url s]\<rparr>)"
proof -
  have "skip_condition ext s file_path True w = (Inr True, s1, w1)"
    using assms(2-4) by (simp add: skip_condition_def)
  with assms(1) have "download ext m s output_path filename filename_prefix True w
      = (Inr file_path, s1, w1)"
    by (simp add: download_def)
  with filesize_keeps [OF assms(3)] filesize_world [OF assms(3)] show ?thesis by simp
qed

theorem skip_existing_returns_early_witness:
  "download example_externals example_monostate example_stream None None None True existing_world
     = (Inr ''/cwd/My Video.mp4'', example_stream\<lparr>filesize_cache := Some 5\<rparr>,
        existing_world\<lparr>headers_log := [url example_stream]\<rparr>) \<and>
   files existing_world = [(''/cwd/My Video.mp4'', ''12345'')] \<and>
   trace existing_world = [] \<and> stream_log existing_world = []"
proof -
  have present: "map_of (files existing_world) ''/cwd/My Video.mp4'' = Some ''12345''"
    by (simp add: existing_world_def)
  have same: "int (length ''12345'') = 5"
    by simp
  have log: "headers_log existing_world = []"
    by (simp add: existing_world_def)
  from skip_existing_returns_early [OF example_target_path present example_filesize same,
      of example_monostate] log
  show ?thesis by (simp add: existing_world_def)
qed

end
